theory Spec2Isabelle
  imports Main
begin

section \<open>Strings\<close>

text \<open>
  The reconciliation worker of \<^verbatim>\<open>oi_360_soa_reco_pyqt_final.py\<close> works on the cells of
  spreadsheets read with \<^verbatim>\<open>dtype=str\<close>. A Python string is modelled as a \<^typ>\<open>string\<close>
  whose characters are the code points below 256; on these, \<^verbatim>\<open>str.isspace\<close> and
  \<^verbatim>\<open>str.isdigit\<close> are the two predicates below.
\<close>

definition py_isspace :: "char \<Rightarrow> bool" where
  "py_isspace c =
     (let n = (of_char c :: nat)
      in (9 \<le> n \<and> n \<le> 13) \<or> (28 \<le> n \<and> n \<le> 32) \<or> n = 133 \<or> n = 160)"

definition py_isdigit :: "char \<Rightarrow> bool" where
  "py_isdigit c =
     (let n = (of_char c :: nat)
      in (48 \<le> n \<and> n \<le> 57) \<or> n = 178 \<or> n = 179 \<or> n = 185)"

text \<open>\<^verbatim>\<open>s.strip()\<close>: whitespace removed at both ends.\<close>

definition strip :: "string \<Rightarrow> string" where
  "strip s = rev (dropWhile py_isspace (rev (dropWhile py_isspace s)))"

text \<open>\<^verbatim>\<open>s.lstrip('0')\<close>.\<close>

definition lstrip_zeros :: "string \<Rightarrow> string" where
  "lstrip_zeros s = dropWhile (\<lambda>c. c = CHR ''0'') s"

text \<open>\<^verbatim>\<open>s.isdigit()\<close>: false on the empty string.\<close>

definition isdigit :: "string \<Rightarrow> bool" where
  "isdigit s = (s \<noteq> [] \<and> list_all py_isdigit s)"

text \<open>\<^verbatim>\<open>s.startswith(p)\<close>.\<close>

definition startswith :: "string \<Rightarrow> string \<Rightarrow> bool" where
  "startswith s p = (take (length p) s = p)"

section \<open>Key normalisation\<close>

text \<open>
  \<^verbatim>\<open>clean_match_value\<close> (lines 410 to 419). Its argument is always a string already
  (an element of \<^verbatim>\<open>astype(str)\<close>), so \<^verbatim>\<open>str(val)\<close> is the identity.
  \<^verbatim>\<open>s.lstrip('0') or '0'\<close> is \<^verbatim>\<open>'0'\<close> when the stripped string is empty.
\<close>

definition clean_match_value :: "string \<Rightarrow> string" where
  "clean_match_value val =
     (let s = strip val;
          s = (if startswith s [CHR 0x27] then drop 1 s else s);
          s = (if isdigit s \<or> (s \<noteq> [] \<and> isdigit (lstrip_zeros s))
               then (if lstrip_zeros s = [] then ''0'' else lstrip_zeros s)
               else s)
      in s)"

text \<open>
  The last step of \<^verbatim>\<open>clean_match_value\<close> (lines 417 and 418) on its own, for the proofs.
\<close>

definition zstep :: "string \<Rightarrow> string" where
  "zstep s = (if isdigit s \<or> (s \<noteq> [] \<and> isdigit (lstrip_zeros s))
               then (if lstrip_zeros s = [] then ''0'' else lstrip_zeros s)
               else s)"

section \<open>Python text helpers\<close>

text \<open>\<^verbatim>\<open>str(n)\<close> for an integer, as used by the f-strings \<^verbatim>\<open>f"Ref{idx+1}"\<close>.\<close>

definition digit_char :: "nat \<Rightarrow> char" where
  "digit_char d = char_of (48 + d)"

fun show_nat :: "nat \<Rightarrow> string" where
  "show_nat n = (if n < 10 then [digit_char n] else show_nat (n div 10) @ [digit_char (n mod 10)])"

declare show_nat.simps [simp del]

definition show_int :: "int \<Rightarrow> string" where
  "show_int i = (if i < 0 then CHR ''-'' # show_nat (nat (- i)) else show_nat (nat i))"

text \<open>\<^verbatim>\<open>sep.join(xs)\<close>.\<close>

fun join :: "string \<Rightarrow> string list \<Rightarrow> string" where
  "join sep [] = []"
| "join sep [x] = x"
| "join sep (x # y # ys) = x @ sep @ join sep (y # ys)"

text \<open>\<^verbatim>\<open>p in s\<close> for strings, and \<^verbatim>\<open>s.lower()\<close> on code points below 256.\<close>

definition contains :: "string \<Rightarrow> string \<Rightarrow> bool" where
  "contains s p = list_ex (\<lambda>i. take (length p) (drop i s) = p) [0..<Suc (length s)]"

definition lower_char :: "char \<Rightarrow> char" where
  "lower_char c =
     (let n = (of_char c :: nat)
      in if (65 \<le> n \<and> n \<le> 90) \<or> (192 \<le> n \<and> n \<le> 222 \<and> n \<noteq> 215) then char_of (n + 32) else c)"

definition lower :: "string \<Rightarrow> string" where
  "lower s = map lower_char s"

text \<open>
  \<^verbatim>\<open>repr(s)\<close> of a string, as it appears in the text of a \<^verbatim>\<open>KeyError\<close> and inside the
  \<^verbatim>\<open>repr\<close> of a list or a set of strings: between apostrophes, or between double
  quotes when the string has an apostrophe and no double quote; the quote character and
  the backslash are escaped, and so is every code point that Python does not count as
  printable (below 256: the control characters, the no-break space and the soft hyphen).
\<close>

definition hex_digit :: "nat \<Rightarrow> char" where
  "hex_digit d = (if d < 10 then char_of (48 + d) else char_of (87 + d))"

definition py_printable :: "char \<Rightarrow> bool" where
  "py_printable c = (let n = (of_char c :: nat) in (32 \<le> n \<and> n < 127) \<or> (161 \<le> n \<and> n \<noteq> 173))"

definition repr_char :: "char \<Rightarrow> char \<Rightarrow> string" where
  "repr_char quote c =
     (if c = quote \<or> c = CHR 0x5C then [CHR 0x5C, c]
      else if c = CHR 0x09 then [CHR 0x5C, CHR ''t'']
      else if c = CHR 0x0A then [CHR 0x5C, CHR ''n'']
      else if c = CHR 0x0D then [CHR 0x5C, CHR ''r'']
      else if py_printable c then [c]
      else [CHR 0x5C, CHR ''x'', hex_digit ((of_char c :: nat) div 16), hex_digit ((of_char c :: nat) mod 16)])"

definition py_repr :: "string \<Rightarrow> string" where
  "py_repr s =
     (let quote = (if CHR 0x27 \<in> set s \<and> CHR 0x22 \<notin> set s then CHR 0x22 else CHR 0x27)
      in quote # concat (map (repr_char quote) s) @ [quote])"

text \<open>\<^verbatim>\<open>Index.unique()\<close>: every element once, in the order of the first occurrences.\<close>

definition unique :: "string list \<Rightarrow> string list" where
  "unique xs = rev (remdups (rev xs))"

definition repr_list :: "string list \<Rightarrow> string" where
  "repr_list xs = ''['' @ join '', '' (map py_repr xs) @ '']''"

section \<open>Cells and tables\<close>

text \<open>
  A cell of a data frame: a missing value (\<^verbatim>\<open>NaN\<close>), a string (every cell read by
  \<^verbatim>\<open>read_excel(dtype=str)\<close>), or a whole number (the \<^verbatim>\<open>Age (Days)\<close> column).
  A frame is its column labels and its rows; every row has one cell per label.
\<close>

datatype cell = NaN | Str string | Num int

definition notna :: "cell \<Rightarrow> bool" where
  "notna c = (c \<noteq> NaN)"

record table =
  cols :: "string list"
  rows :: "cell list list"

text \<open>
  The exceptions that the worker can meet. A \<^verbatim>\<open>KeyError\<close> carries its argument: the
  label that was looked up, or the message of pandas when some labels of a selection
  are missing. A \<^verbatim>\<open>MergeError\<close> carries the labels that the suffixes of the join would
  duplicate.
\<close>

datatype error =
    KeyError string
  | IndexError
  | ValueError string
  | MergeError "string list"
  | ZeroDivisionError

text \<open>\<^verbatim>\<open>str(v)\<close> of one cell and \<^verbatim>\<open>column.astype(str)\<close>. A numeric column that holds a
  missing value is a float column, whose numbers print with \<^verbatim>\<open>.0\<close>.\<close>

definition py_str :: "cell \<Rightarrow> string" where
  "py_str c = (case c of NaN \<Rightarrow> ''nan'' | Str s \<Rightarrow> s | Num n \<Rightarrow> show_int n)"

definition astype_str :: "cell list \<Rightarrow> string list" where
  "astype_str col =
     map (\<lambda>c. case c of NaN \<Rightarrow> ''nan'' | Str s \<Rightarrow> s
               | Num n \<Rightarrow> show_int n @ (if NaN \<in> set col then ''.0'' else [])) col"

text \<open>Position of a label (the first one of that name) and the column under it.\<close>

definition col_index :: "string list \<Rightarrow> string \<Rightarrow> nat" where
  "col_index cs c = length (takeWhile (\<lambda>x. x \<noteq> c) cs)"

definition col_values :: "table \<Rightarrow> string \<Rightarrow> cell list" where
  "col_values t c = map (\<lambda>r. r ! col_index (cols t) c) (rows t)"

text \<open>\<^verbatim>\<open>df[c]\<close>: a \<^verbatim>\<open>KeyError\<close> when there is no such label.\<close>

definition getcol :: "table \<Rightarrow> string \<Rightarrow> error + cell list" where
  "getcol t c = (if c \<in> set (cols t) then Inr (col_values t c) else Inl (KeyError c))"

text \<open>\<^verbatim>\<open>df[c] = values\<close>: overwrites the column in place, or appends a new last column.\<close>

definition setcol :: "table \<Rightarrow> string \<Rightarrow> cell list \<Rightarrow> table" where
  "setcol t c vs =
     (if c \<in> set (cols t)
      then t\<lparr>rows := map2 (\<lambda>r v. r[col_index (cols t) c := v]) (rows t) vs\<rparr>
      else t\<lparr>cols := cols t @ [c], rows := map2 (\<lambda>r v. r @ [v]) (rows t) vs\<rparr>)"

text \<open>\<^verbatim>\<open>df.pop(c)\<close> and \<^verbatim>\<open>df.drop(columns=[c])\<close>: the frame without the columns labelled \<open>c\<close>.\<close>

definition drop_col :: "string \<Rightarrow> table \<Rightarrow> table" where
  "drop_col c t =
     \<lparr>cols = filter (\<lambda>x. x \<noteq> c) (cols t),
      rows = map (\<lambda>r. map snd (filter (\<lambda>(x, v). x \<noteq> c) (zip (cols t) r))) (rows t)\<rparr>"

text \<open>\<^verbatim>\<open>df.insert(0, c, values)\<close> for a label that was just popped.\<close>

definition insert_first :: "string \<Rightarrow> cell list \<Rightarrow> table \<Rightarrow> table" where
  "insert_first c vs t = \<lparr>cols = c # cols t, rows = map2 (\<lambda>v r. v # r) vs (rows t)\<rparr>"

text \<open>\<^verbatim>\<open>df.insert(df.shape[1], c, "")\<close>: a \<^verbatim>\<open>ValueError\<close> when the label exists already.\<close>

definition insert_last :: "string \<Rightarrow> table \<Rightarrow> error + table" where
  "insert_last c t =
     (if c \<in> set (cols t) then Inl (ValueError (''cannot insert '' @ c @ '', already exists''))
      else Inr \<lparr>cols = cols t @ [c], rows = map (\<lambda>r. r @ [Str []]) (rows t)\<rparr>)"

text \<open>
  \<^verbatim>\<open>df[[c1, ..., cn]]\<close>. When some of the labels are missing, and not all of them,
  pandas raises \<^verbatim>\<open>KeyError(f"{not_found} not in index")\<close>, where \<^verbatim>\<open>not_found\<close> is the
  list of the missing labels, each once, in the order of the selection. The worker
  selects the match column, which it has just read, first, so never all are missing.
\<close>

definition select_cols :: "table \<Rightarrow> string list \<Rightarrow> error + table" where
  "select_cols t cs =
     (case filter (\<lambda>c. c \<notin> set (cols t)) cs of
        m # ms \<Rightarrow> Inl (KeyError (repr_list (unique (m # ms)) @ '' not in index''))
      | [] \<Rightarrow> Inr \<lparr>cols = cs, rows = map (\<lambda>r. map (\<lambda>c. r ! col_index (cols t) c) cs) (rows t)\<rparr>)"

section \<open>The left join\<close>

text \<open>
  \<^verbatim>\<open>pd.merge(left, right, left_on=l, right_on=r, how='left')\<close>, as pandas documents it.
  When both key labels are the same the right key column is dropped. Labels that occur
  on both sides get the suffixes \<^verbatim>\<open>_x\<close> and \<^verbatim>\<open>_y\<close>; the merge fails when a suffix makes
  two labels of one side equal. Every left row is kept, in order; it is paired with
  each right row of the same key, in the right frame's order, or with missing values
  when there is none.
\<close>

definition suffixed :: "string list \<Rightarrow> string list \<Rightarrow> string \<Rightarrow> string list" where
  "suffixed to_rename cs sfx = map (\<lambda>c. if c \<in> set to_rename then c @ sfx else c) cs"

definition duplicated :: "string list \<Rightarrow> bool list" where
  "duplicated cs = map (\<lambda>i. cs ! i \<in> set (take i cs)) [0..<length cs]"

definition suffix_dups :: "string list \<Rightarrow> string list \<Rightarrow> bool" where
  "suffix_dups old new = list_ex (\<lambda>(was, now). now \<and> \<not> was) (zip (duplicated old) (duplicated new))"

text \<open>\<^verbatim>\<open>llabels[(llabels.duplicated()) & (~left.duplicated())].tolist()\<close>.\<close>

definition suffix_dup_labels :: "string list \<Rightarrow> string list \<Rightarrow> string list" where
  "suffix_dup_labels old new =
     map snd (filter (\<lambda>((was, now), l). now \<and> \<not> was) (zip (zip (duplicated old) (duplicated new)) new))"

definition merge_left :: "table \<Rightarrow> table \<Rightarrow> string \<Rightarrow> string \<Rightarrow> error + table" where
  "merge_left left right left_on right_on =
     (if right_on \<notin> set (cols right) then Inl (KeyError right_on)
      else if left_on \<notin> set (cols left) then Inl (KeyError left_on)
      else
        let li = col_index (cols left) left_on;
            ri = col_index (cols right) right_on;
            right' = (if left_on = right_on then drop_col right_on right else right);
            to_rename = filter (\<lambda>c. c \<in> set (cols right')) (cols left);
            lcols = suffixed to_rename (cols left) ''_x'';
            rcols = suffixed to_rename (cols right') ''_y''
        in if suffix_dups (cols left) lcols \<or> suffix_dups (cols right') rcols
           then Inl (MergeError (suffix_dup_labels (cols left) lcols @ suffix_dup_labels (cols right') rcols))
           else Inr \<lparr>cols = lcols @ rcols,
                    rows = concat (map (\<lambda>l.
                      let ms = filter (\<lambda>(r, r'). r ! ri = l ! li) (zip (rows right) (rows right'))
                      in if ms = [] then [l @ replicate (length rcols) NaN]
                         else map (\<lambda>(r, r'). l @ r') ms) (rows left))\<rparr>)"

section \<open>Ageing\<close>

text \<open>
  \<^verbatim>\<open>bucket\<close> (lines 388 to 395). The argument is one value of the \<^verbatim>\<open>Age (Days)\<close>
  column: missing, or a number of whole days.
\<close>

definition bucket :: "int option \<Rightarrow> string" where
  "bucket days =
     (case days of
        None \<Rightarrow> ''Unknown''
      | Some d \<Rightarrow>
          if d \<le> 15 then ''0-15''
          else if d \<le> 30 then ''16-30''
          else if d \<le> 60 then ''31-60''
          else if d \<le> 90 then ''61-90''
          else if d \<le> 120 then ''91-120''
          else ''121+'')"

text \<open>
  What the worker takes from outside the repository is a parameter of the model.

  \<^item> The date parser is pandas' \<^verbatim>\<open>to_datetime(errors='coerce', format='mixed', dayfirst=True)\<close>.
    With \<^verbatim>\<open>format='mixed'\<close> every cell is parsed on its own, to an instant (nanoseconds
    since the epoch) or to \<^verbatim>\<open>NaT\<close>; \<open>date_error\<close> is the exception, if any, that parsing
    the column or subtracting it from \<^verbatim>\<open>today\<close> raises.
  \<^item> The amounts are compared in Python's floating point (lines 527 to 545), which is not
    modelled: \<open>float_reads s\<close> says that \<^verbatim>\<open>float(s)\<close> returns, and for two texts that it
    reads, with \<^verbatim>\<open>diff = float(a) - float(b)\<close>, \<open>diff_exceeds a b\<close> is \<^verbatim>\<open>abs(diff) > 0.01\<close>,
    \<open>diff_positive a b\<close> is \<^verbatim>\<open>diff > 0\<close> and \<open>diff_text a b\<close> is \<^verbatim>\<open>f"{diff:.2f}"\<close>.
  \<^item> \<open>set_order\<close> is the order in which Python goes through a set of strings, which
    depends on the hash seed of the process; it only shows in the text of a
    \<^verbatim>\<open>MergeError\<close> that names several labels.
  \<^item> The workbook is written by pandas and xlsxwriter: \<open>open_error\<close> is the exception, if
    any, that creating the workbook or \<^verbatim>\<open>to_excel\<close> raises for a frame (lines 482 and
    483), and \<open>close_error\<close> the one raised when the \<^verbatim>\<open>with\<close> block is left and the file
    is written.
\<close>

record libs =
  parse_date :: "cell \<Rightarrow> int option"
  date_error :: "cell list \<Rightarrow> string option"
  float_reads :: "string \<Rightarrow> bool"
  diff_exceeds :: "string \<Rightarrow> string \<Rightarrow> bool"
  diff_positive :: "string \<Rightarrow> string \<Rightarrow> bool"
  diff_text :: "string \<Rightarrow> string \<Rightarrow> string"
  set_order :: "string list \<Rightarrow> string list"
  open_error :: "table \<Rightarrow> string option"
  close_error :: "table \<Rightarrow> string option"

text \<open>
  \<^verbatim>\<open>str(e)\<close>. The text of a \<^verbatim>\<open>KeyError\<close> is the \<^verbatim>\<open>repr\<close> of its argument; pandas words
  the other two of its own as below (\<^verbatim>\<open>{set(dups)}\<close> in an f-string).
\<close>

definition repr_set :: "libs \<Rightarrow> string list \<Rightarrow> string" where
  "repr_set lib xs = ''{'' @ join '', '' (map py_repr (set_order lib (unique xs))) @ ''}''"

fun error_text :: "libs \<Rightarrow> error \<Rightarrow> string" where
  "error_text lib (KeyError k) = py_repr k"
| "error_text lib IndexError = ''list index out of range''"
| "error_text lib (ValueError m) = m"
| "error_text lib (MergeError dups) =
     ''Passing '' @ [CHR 0x27] @ ''suffixes'' @ [CHR 0x27] @ '' which cause duplicate columns ''
       @ repr_set lib dups @ '' is not allowed.''"
| "error_text lib ZeroDivisionError = ''division by zero''"

definition ns_per_day :: int where
  "ns_per_day = 86400000000000"

text \<open>\<^verbatim>\<open>(today - temp_dates).dt.days\<close>: whole days, rounded down.\<close>

definition age_days :: "int \<Rightarrow> int option \<Rightarrow> int option" where
  "age_days today t = map_option (\<lambda>d. (today - d) div ns_per_day) t"

definition age_cell :: "int option \<Rightarrow> cell" where
  "age_cell a = (case a of None \<Rightarrow> NaN | Some d \<Rightarrow> Num d)"

text \<open>
  The body of the \<^verbatim>\<open>try\<close> of lines 380 to 400, for a date column that is in the frame.
  \<open>Inl\<close> is the message of the exception.
\<close>

definition age_step :: "libs \<Rightarrow> int \<Rightarrow> string \<Rightarrow> table \<Rightarrow> string + table" where
  "age_step lib today date_col df =
     (let original_date_col_values = col_values df date_col
      in case date_error lib original_date_col_values of
           Some msg \<Rightarrow> Inl msg
         | None \<Rightarrow>
             let temp_dates = map (parse_date lib) original_date_col_values;
                 ages = map (age_days today) temp_dates;
                 df = setcol df ''Age (Days)'' (map age_cell ages);
                 df = setcol df ''Age Bucket'' (map (\<lambda>a. Str (bucket a)) ages);
                 popped = col_values df ''Age Bucket'';
                 df = insert_first ''Age Bucket'' popped (drop_col ''Age Bucket'' df);
                 df = setcol df date_col original_date_col_values
             in Inr df)"

section \<open>The reconciliation worker\<close>

text \<open>
  One reference slot, the tuple \<^verbatim>\<open>(ref_df, match_col, return_cols, _)\<close> of line 431 (its
  fourth component is never read), and the fields of \<^verbatim>\<open>RecoWorker\<close>.
\<close>

record config =
  ref_df :: table
  match_col :: string
  return_cols :: "string list"

record worker =
  soa_df :: table
  soa_match :: string
  soa_date_col :: "string option"
  soa_amount_col :: "string option"
  ref_configs :: "config option list"

text \<open>
  What \<^verbatim>\<open>run\<close> has in hand while it loops over the slots: the growing frame, the
  dictionary from normalised key to source labels, and the step counter.
\<close>

record state =
  df_result :: table
  match_sources_dict :: "string \<rightharpoonup> string list"
  current_step :: nat

text \<open>
  What a run sends out, in the order in which it does: \<^verbatim>\<open>update_status.emit\<close>,
  \<^verbatim>\<open>update_progress.emit\<close> and \<^verbatim>\<open>log_debug\<close> (the line of the debug log without its
  time stamp).
\<close>

datatype event = Status string | Progress int | Log string

text \<open>
  \<^verbatim>\<open>int((current_step / total_steps) * 100)\<close>. Python divides two integers into the
  double nearest to their quotient, multiplies by 100 into the double nearest to the
  product, and \<^verbatim>\<open>int\<close> drops the fraction. A positive double is written here as a
  fraction whose denominator is a power of two; rounding is to 53 significant bits,
  ties to the even significand. The counts of a run are far inside the range of the
  normal doubles, so that neither overflow nor gradual underflow is modelled.
\<close>

function bit_length :: "int \<Rightarrow> nat" where
  "bit_length n = (if n \<le> 0 then 0 else Suc (bit_length (n div 2)))"
  by pat_completeness auto
termination
  by (relation "measure nat") auto

declare bit_length.simps [simp del]

definition round_half_even :: "int \<Rightarrow> int \<Rightarrow> int" where
  "round_half_even n d =
     (let q = n div d; r = n mod d
      in if 2 * r < d \<or> (2 * r = d \<and> even q) then q else q + 1)"

definition nearest_double :: "int \<Rightarrow> int \<Rightarrow> int \<times> int" where
  "nearest_double n d =
     (if n = 0 then (0, 1)
      else
        let e = int (bit_length n) - int (bit_length d);
            lg = (if (if 0 \<le> e then d * 2 ^ nat e \<le> n else d \<le> n * 2 ^ nat (- e)) then e else e - 1);
            s = 52 - lg
        in if 0 \<le> s then (round_half_even (n * 2 ^ nat s) d, 2 ^ nat s)
           else (round_half_even n (d * 2 ^ nat (- s)) * 2 ^ nat (- s), 1))"

definition percent :: "nat \<Rightarrow> nat \<Rightarrow> int" where
  "percent current tsteps =
     (let (a, b) = nearest_double (int current) (int tsteps);
          (c, d) = nearest_double (a * 100) b
      in c div d)"

definition ref_label :: "nat \<Rightarrow> string" where
  "ref_label idx = ''Ref'' @ show_nat (idx + 1)"

definition ref_col_name :: "nat \<Rightarrow> string \<Rightarrow> string" where
  "ref_col_name idx col = ref_label idx @ ''_'' @ col"

text \<open>\<^verbatim>\<open>match_sources_dict[key].append(label)\<close> under \<^verbatim>\<open>if key in match_sources_dict\<close>.\<close>

definition append_source :: "string \<Rightarrow> string \<Rightarrow> (string \<rightharpoonup> string list) \<Rightarrow> (string \<rightharpoonup> string list)" where
  "append_source key lbl d = (case d key of None \<Rightarrow> d | Some l \<Rightarrow> d(key \<mapsto> l @ [lbl]))"

text \<open>
  The loop of lines 445 to 452 over \<^verbatim>\<open>enumerate(match_mask)\<close>; row \<open>i\<close> of the frame is
  \<^verbatim>\<open>df_result.iloc[i]\<close>. It returns the state it reached, what it emitted, and the
  exception that ended it, if any.
\<close>

fun match_rows :: "string \<Rightarrow> string \<Rightarrow> nat \<Rightarrow> string list \<Rightarrow> (bool \<times> cell list) list \<Rightarrow> state
                    \<Rightarrow> (state \<times> event list) \<times> error option" where
  "match_rows lbl soa_col tsteps cs [] st = ((st, []), None)"
| "match_rows lbl soa_col tsteps cs ((matched, row) # rest) st =
     (if matched \<and> soa_col \<notin> set cs then ((st, []), Some (KeyError soa_col))
      else
        let st = (if matched
                  then st\<lparr>match_sources_dict :=
                          append_source (clean_match_value (py_str (row ! col_index cs soa_col))) lbl
                            (match_sources_dict st)\<rparr>
                  else st);
            st = st\<lparr>current_step := current_step st + 1\<rparr>
        in if tsteps = 0 then ((st, []), Some ZeroDivisionError)
           else (case match_rows lbl soa_col tsteps cs rest st of
                   ((st', evs), err) \<Rightarrow>
                     ((st', Progress (percent (current_step st) tsteps) # evs), err)))"

text \<open>
  The body of the \<^verbatim>\<open>try\<close> of lines 433 to 454 for slot \<open>idx\<close>, in three parts. It returns
  the state and the reference frame as they are when it ends, what it emitted, and the
  exception that ended it, if any: line 437 writes the normalised keys into the caller's
  reference frame, line 438 into the statement frame, line 443 replaces the frame by the
  join, and all of this stays when a later line raises.
\<close>

definition clean_column :: "cell list \<Rightarrow> cell list" where
  "clean_column vs = map (\<lambda>s. Str (clean_match_value s)) (astype_str vs)"

text \<open>Lines 440 to 443.\<close>

definition join_slot :: "string \<Rightarrow> nat \<Rightarrow> config \<Rightarrow> table \<Rightarrow> table \<Rightarrow> error + table" where
  "join_slot soa_col idx c ref df =
     (case select_cols ref (match_col c # return_cols c) of
        Inl e \<Rightarrow> Inl e
      | Inr selected \<Rightarrow>
          let ref_extract = selected\<lparr>cols := match_col c # map (ref_col_name idx) (return_cols c)\<rparr>
          in merge_left df ref_extract soa_col (match_col c))"

text \<open>Lines 444 to 454.\<close>

definition mark_matches :: "string \<Rightarrow> nat \<Rightarrow> nat \<Rightarrow> config \<Rightarrow> state \<Rightarrow> (state \<times> event list) \<times> error option" where
  "mark_matches soa_col tsteps idx c st =
     (case return_cols c of
        [] \<Rightarrow> ((st, []), Some IndexError)
      | first_return # _ \<Rightarrow>
          (case getcol (df_result st) (ref_col_name idx first_return) of
             Inl e \<Rightarrow> ((st, []), Some e)
           | Inr matched_col \<Rightarrow>
               (case match_rows (ref_label idx) soa_col tsteps (cols (df_result st))
                       (zip (map notna matched_col) (rows (df_result st))) st of
                  ((st, evs), Some e) \<Rightarrow> ((st, evs), Some e)
                | ((st, evs), None) \<Rightarrow>
                    if idx > 0
                    then (case insert_last (''Separator'' @ show_nat (idx + 1)) (df_result st) of
                            Inl e \<Rightarrow> ((st, evs), Some e)
                          | Inr df \<Rightarrow> ((st\<lparr>df_result := df\<rparr>, evs), None))
                    else ((st, evs), None))))"

text \<open>Line 433: the status that announces a slot.\<close>

definition slot_started :: "nat \<Rightarrow> config \<Rightarrow> event" where
  "slot_started idx c =
     Status (''Matching '' @ ref_label idx @ '' | Match = '' @ match_col c
               @ '' | Returns = '' @ join '', '' (return_cols c))"

text \<open>Lines 438 to 454, with the reference frame as line 437 left it.\<close>

definition slot_rest :: "string \<Rightarrow> nat \<Rightarrow> nat \<Rightarrow> config \<Rightarrow> table \<Rightarrow> state
                          \<Rightarrow> (state \<times> event list) \<times> error option" where
  "slot_rest soa_col tsteps idx c ref st =
     (case getcol (df_result st) soa_col of
        Inl e \<Rightarrow> ((st, []), Some e)
      | Inr soa_keys \<Rightarrow>
          let st = st\<lparr>df_result := setcol (df_result st) soa_col (clean_column soa_keys)\<rparr>
          in (case join_slot soa_col idx c ref (df_result st) of
                Inl e \<Rightarrow> ((st, []), Some e)
              | Inr merged \<Rightarrow> mark_matches soa_col tsteps idx c (st\<lparr>df_result := merged\<rparr>)))"

text \<open>Lines 433 to 437, then the rest.\<close>

definition slot_body :: "string \<Rightarrow> nat \<Rightarrow> nat \<Rightarrow> config \<Rightarrow> state
                          \<Rightarrow> ((state \<times> table) \<times> event list) \<times> error option" where
  "slot_body soa_col tsteps idx c st =
     (let started = slot_started idx c;
          ref = ref_df c
      in case getcol ref (match_col c) of
           Inl e \<Rightarrow> (((st, ref), [started]), Some e)
         | Inr ref_keys \<Rightarrow>
             let ref = setcol ref (match_col c) (clean_column ref_keys)
             in (case slot_rest soa_col tsteps idx c ref st of
                   ((st, evs), err) \<Rightarrow> (((st, ref), started # evs), err)))"

text \<open>Lines 455 to 457: what the \<^verbatim>\<open>except\<close> of a slot sends out.\<close>

definition slot_failed :: "libs \<Rightarrow> nat \<Rightarrow> error \<Rightarrow> event list" where
  "slot_failed lib idx e =
     [Log (''Match Error '' @ ref_label idx @ '': '' @ error_text lib e),
      Status (''Error matching '' @ ref_label idx @ '': '' @ error_text lib e)]"

text \<open>
  The loop of lines 428 to 457 over \<^verbatim>\<open>enumerate(self.ref_configs)\<close>, from index \<open>idx\<close> on.
  An absent slot is skipped; the exception of a slot is logged and reported, and the loop
  goes on. The last result is the slots with their reference frames as the run leaves
  them.
\<close>

fun run_slots :: "libs \<Rightarrow> string \<Rightarrow> nat \<Rightarrow> nat \<Rightarrow> config option list \<Rightarrow> state
                   \<Rightarrow> (state \<times> event list) \<times> config option list" where
  "run_slots lib soa_col tsteps idx [] st = ((st, []), [])"
| "run_slots lib soa_col tsteps idx (None # rest) st =
     (case run_slots lib soa_col tsteps (Suc idx) rest st of
        ((st, evs), rest) \<Rightarrow> ((st, evs), None # rest))"
| "run_slots lib soa_col tsteps idx (Some c # rest) st =
     (case slot_body soa_col tsteps idx c st of
        (((st, ref), evs), err) \<Rightarrow>
          let evs = evs @ (case err of None \<Rightarrow> [] | Some e \<Rightarrow> slot_failed lib idx e)
          in (case run_slots lib soa_col tsteps (Suc idx) rest st of
                ((st, evs'), rest) \<Rightarrow> ((st, evs @ evs'), Some (c\<lparr>ref_df := ref\<rparr>) # rest)))"

text \<open>
  Lines 458 to 461: the \<^verbatim>\<open>Match Source\<close> value of one key.
  \<^verbatim>\<open>", ".join(l) if l else ""\<close> with \<^verbatim>\<open>l = match_sources_dict.get(key, [])\<close>.
\<close>

definition match_source :: "(string \<rightharpoonup> string list) \<Rightarrow> string \<Rightarrow> string" where
  "match_source d val =
     (let l = (case d (clean_match_value val) of None \<Rightarrow> [] | Some l \<Rightarrow> l)
      in if l \<noteq> [] then join '', '' l else [])"

text \<open>
  Lines 467 to 477: in every column whose lower-cased label contains \<^verbatim>\<open>date\<close>, \<^verbatim>\<open>dt\<close>
  or \<^verbatim>\<open>dated\<close>, the cells become strings, lose a final \<^verbatim>\<open>\s+00:00:00$\<close> (the
  \<^verbatim>\<open>$\<close> of a regular expression also matches before a final newline), and the texts
  \<^verbatim>\<open>nan\<close> and \<^verbatim>\<open>NaT\<close> become empty.
\<close>

definition is_date_label :: "string \<Rightarrow> bool" where
  "is_date_label col = list_ex (\<lambda>kw. contains (lower col) kw) [''date'', ''dt'', ''dated'']"

definition strip_midnight :: "string \<Rightarrow> string" where
  "strip_midnight s =
     (let final_newline = (s \<noteq> [] \<and> last s = CHR 0x0A);
          body = (if final_newline then butlast s else s);
          front = take (length body - 8) body
      in if drop (length body - 8) body = ''00:00:00'' \<and> front \<noteq> [] \<and> py_isspace (last front)
         then rev (dropWhile py_isspace (rev front)) @ (if final_newline then [CHR 0x0A] else [])
         else s)"

definition clean_date_text :: "string \<Rightarrow> string" where
  "clean_date_text s =
     (let s = strip_midnight s;
          s = (if s = ''nan'' then [] else s);
          s = (if s = ''NaT'' then [] else s)
      in s)"

definition clean_date_columns :: "table \<Rightarrow> table" where
  "clean_date_columns df =
     fold (\<lambda>col df. if is_date_label col
                     then setcol df col (map (\<lambda>s. Str (clean_date_text s)) (astype_str (col_values df col)))
                     else df)
          (cols df) df"

text \<open>
  How a run ends. \<open>Completed\<close> carries the frame that \<^verbatim>\<open>reco_complete\<close> emits (line 587).
  \<open>Aborted\<close> is the \<^verbatim>\<open>return\<close> of line 407, and \<open>Crashed\<close> an exception that no
  \<^verbatim>\<open>try\<close> of \<^verbatim>\<open>run\<close> catches; neither emits a frame.
\<close>

datatype outcome = Completed table | Aborted | Crashed error

record report =
  outcome :: outcome
  events :: "event list"
  refs_after :: "config option list"

definition statuses :: "report \<Rightarrow> string list" where
  "statuses r = concat (map (\<lambda>e. case e of Status s \<Rightarrow> [s] | _ \<Rightarrow> []) (events r))"

definition progress :: "report \<Rightarrow> int list" where
  "progress r = concat (map (\<lambda>e. case e of Progress p \<Rightarrow> [p] | _ \<Rightarrow> []) (events r))"

definition logs :: "report \<Rightarrow> string list" where
  "logs r = concat (map (\<lambda>e. case e of Log s \<Rightarrow> [s] | _ \<Rightarrow> []) (events r))"

text \<open>A column of the emitted frame; empty when the run emits no frame.\<close>

definition result_column :: "report \<Rightarrow> string \<Rightarrow> cell list" where
  "result_column r c = (case outcome r of Completed df \<Rightarrow> col_values df c | _ \<Rightarrow> [])"

definition result_labels :: "report \<Rightarrow> string list" where
  "result_labels r = (case outcome r of Completed df \<Rightarrow> cols df | _ \<Rightarrow> [])"

text \<open>Line 422 and line 425.\<close>

definition initial_dict :: "string list \<Rightarrow> (string \<rightharpoonup> string list)" where
  "initial_dict vals = fold (\<lambda>v d. d(clean_match_value v \<mapsto> [])) vals Map.empty"

definition total_steps :: "worker \<Rightarrow> table \<Rightarrow> nat" where
  "total_steps w df = (if length (rows df) > 0 then length (ref_configs w) * length (rows df) else 1)"

text \<open>Lines 458 to 477, on the state that the loop over the slots left.\<close>

definition finish :: "string \<Rightarrow> state \<Rightarrow> error + table" where
  "finish soa_col st =
     (case getcol (df_result st) soa_col of
        Inl e \<Rightarrow> Inl e
      | Inr keys \<Rightarrow>
          let df = setcol (df_result st) ''Match Source''
                     (map (\<lambda>v. Str (match_source (match_sources_dict st) v)) (astype_str keys));
              df = (if ''Separator1'' \<in> set (cols df) then drop_col ''Separator1'' df else df)
          in Inr (clean_date_columns df))"

text \<open>
  Lines 497 to 501: the labels of the frame that begin with \<^verbatim>\<open>Ref\<close> and contain a word for
  an amount.
\<close>

definition amount_keywords :: "string list" where
  "amount_keywords = [''amount'', ''amt'', ''value'', ''total'', ''sum'', ''price'', ''cost'']"

definition ref_amount_cols :: "string list \<Rightarrow> string list" where
  "ref_amount_cols all_cols =
     filter (\<lambda>c. list_ex (\<lambda>kw. contains (lower c) kw) amount_keywords \<and> startswith c ''Ref'') all_cols"

text \<open>\<^verbatim>\<open>s.replace(',', '').replace('$', '').strip()\<close> and \<^verbatim>\<open>ref_col.split('_')[0]\<close>.\<close>

definition amount_text :: "string \<Rightarrow> string" where
  "amount_text s = strip (filter (\<lambda>ch. ch \<noteq> CHR '','' \<and> ch \<noteq> CHR ''$'') s)"

definition ref_name :: "string \<Rightarrow> string" where
  "ref_name ref_col = takeWhile (\<lambda>ch. ch \<noteq> CHR ''_'') ref_col"

text \<open>
  Lines 535 to 558 for one reference amount column of one row. \<open>soa_num\<close> is the
  statement amount, a float that is written here as the text from which it was read, or
  nothing when the cell is missing or is not read as a float. The result is the entry
  of the row's differences and whether the two cells are highlighted, or nothing.
\<close>

definition diff_entry :: "libs \<Rightarrow> string option \<Rightarrow> string \<Rightarrow> cell \<Rightarrow> string \<Rightarrow> (string \<times> bool) option" where
  "diff_entry lib soa_num ref_col ref_val ref_str =
     (case soa_num of
        None \<Rightarrow> None
      | Some a \<Rightarrow>
          if notna ref_val \<and> float_reads lib (amount_text ref_str)
          then let b = amount_text ref_str
               in if diff_exceeds lib a b
                  then Some (ref_name ref_col @ '': '' @ (if diff_positive lib a b then ''+'' else [])
                               @ diff_text lib a b, True)
                  else Some (ref_name ref_col @ '': 0.00'', False)
          else None)"

text \<open>
  Lines 519 to 565: the entries of every row. \<^verbatim>\<open>str(v)\<close> of the cell of a row is the
  cell's text in its column, as \<^verbatim>\<open>astype(str)\<close> gives it. With labels that are pairwise
  different, as they are in frames read from a workbook, no line of the loop raises.
\<close>

definition row_entries :: "libs \<Rightarrow> table \<Rightarrow> string \<Rightarrow> string list \<Rightarrow> (string \<times> bool) list list" where
  "row_entries lib df soa_amt_col ref_cols =
     (let soa_vals = col_values df soa_amt_col;
          soa_strs = astype_str soa_vals
      in map (\<lambda>i.
           let soa_num = (if notna (soa_vals ! i) \<and> float_reads lib (amount_text (soa_strs ! i))
                          then Some (amount_text (soa_strs ! i)) else None)
           in List.map_filter
                (\<lambda>ref_col. diff_entry lib soa_num ref_col (col_values df ref_col ! i)
                              (astype_str (col_values df ref_col) ! i))
                ref_cols)
         [0..<length (rows df)])"

text \<open>
  Lines 493 to 585: the comparison of the amounts, on the frame that line 477 left. It
  returns the frame, with the column \<^verbatim>\<open>Amount Difference\<close> when amounts were compared,
  and what it logged and reported. Which cells of the workbook are coloured is not part
  of the result.
\<close>

definition annotate :: "libs \<Rightarrow> string option \<Rightarrow> table \<Rightarrow> table \<times> event list" where
  "annotate lib soa_amt_col df =
     (let cmp_cols = ref_amount_cols (cols df);
          chosen = (case soa_amt_col of None \<Rightarrow> [] | Some c \<Rightarrow> c)
      in if chosen \<noteq> [] \<and> chosen \<in> set (cols df) \<and> cmp_cols \<noteq> []
         then
           let entries = row_entries lib df chosen cmp_cols;
               mismatch_count = length (filter snd (concat entries));
               amount_diff_data = map (\<lambda>row_diffs. Str (join '', '' (map fst row_diffs))) entries
           in (setcol df ''Amount Difference'' amount_diff_data,
               [Log (''Amount Highlighting: SOA column = '' @ chosen @ '', Ref columns = ''
                       @ repr_list cmp_cols),
                Status (''Amount comparison: '' @ show_nat (length cmp_cols)
                          @ '' ref column(s) checked, '' @ show_nat mismatch_count
                          @ '' mismatches highlighted'')])
         else if chosen \<noteq> []
         then (df,
               [Log (''Amount Highlighting: No matching Ref amount columns found. SOA col = '' @ chosen),
                Status (''Amount comparison: No Ref amount columns detected for comparison with ''
                          @ [CHR 0x27] @ chosen @ [CHR 0x27])])
         else (df,
               [Log ''Amount Highlighting SKIPPED: No SOA amount column selected'',
                Status ''Amount comparison: No amount column selected for comparison'']))"

text \<open>
  Lines 479 to 585: the workbook. An exception of the writer is logged and reported,
  and the frame is emitted all the same, with what had been added to it by then.
\<close>

definition excel_failed :: "string \<Rightarrow> event list" where
  "excel_failed msg = [Log (''Excel Write Error: '' @ msg), Status (''Error saving Excel: '' @ msg)]"

definition write_workbook :: "libs \<Rightarrow> string option \<Rightarrow> table \<Rightarrow> table \<times> event list" where
  "write_workbook lib soa_amt_col df =
     (case open_error lib df of
        Some msg \<Rightarrow> (df, excel_failed msg)
      | None \<Rightarrow>
          (case annotate lib soa_amt_col df of
             (df, evs) \<Rightarrow>
               (df, evs @ (case close_error lib df of None \<Rightarrow> [] | Some msg \<Rightarrow> excel_failed msg))))"

text \<open>Lines 421 to 587, on the frame that the ageing left.\<close>

definition reconcile :: "libs \<Rightarrow> worker \<Rightarrow> table \<Rightarrow> report" where
  "reconcile lib w df =
     (case getcol df (soa_match w) of
        Inl e \<Rightarrow> \<lparr>outcome = Crashed e, events = [], refs_after = ref_configs w\<rparr>
      | Inr keys \<Rightarrow>
          let st = \<lparr>df_result = df, match_sources_dict = initial_dict (astype_str keys),
                    current_step = 0\<rparr>;
              started = Status ''Starting reconciliation...''
          in (case run_slots lib (soa_match w) (total_steps w df) 0 (ref_configs w) st of
                ((st, evs), refs) \<Rightarrow>
                  (case finish (soa_match w) st of
                     Inl e \<Rightarrow> \<lparr>outcome = Crashed e, events = started # evs, refs_after = refs\<rparr>
                   | Inr df \<Rightarrow>
                       (case write_workbook lib (soa_amount_col w) df of
                          (df, written) \<Rightarrow>
                            \<lparr>outcome = Completed df,
                             events = started # evs @ [Status ''Reconciliation Complete'', Progress 100]
                                        @ written,
                             refs_after = refs\<rparr>))))"

text \<open>
  \<^verbatim>\<open>RecoWorker.run\<close>. \<open>today\<close> is the clock reading of line 381, in nanoseconds since
  the epoch. The statement frame is copied (line 374); the reference frames are not.
\<close>

definition run :: "libs \<Rightarrow> int \<Rightarrow> worker \<Rightarrow> report" where
  "run lib today w =
     (case (case soa_date_col w of
              Some date_col \<Rightarrow>
                if date_col \<noteq> [] \<and> date_col \<in> set (cols (soa_df w))
                then age_step lib today date_col (soa_df w)
                else Inr (soa_df w)
            | None \<Rightarrow> Inr (soa_df w)) of
        Inl msg \<Rightarrow>
          \<lparr>outcome = Aborted,
           events = [Status (''[WARNING] Age Bucket Error: '' @ msg), Log (''Age Bucket Error: '' @ msg)],
           refs_after = ref_configs w\<rparr>
      | Inr df \<Rightarrow> reconcile lib w df)"

section \<open>Calendar dates and example inputs\<close>

text \<open>
  The instant at which a day of the Gregorian calendar begins, counted from 1 January
  1970: what the date parser returns for a cell that holds that date and no time of day.
\<close>

definition days_from_civil :: "int \<Rightarrow> int \<Rightarrow> int \<Rightarrow> int" where
  "days_from_civil y m d =
     (let y' = (if m \<le> 2 then y - 1 else y);
          era = y' div 400;
          yoe = y' - era * 400;
          mp = (m + 9) mod 12;
          doy = (153 * mp + 2) div 5 + d - 1;
          doe = yoe * 365 + yoe div 4 - yoe div 100 + doy
      in era * 146097 + doe - 719468)"

definition midnight :: "int \<Rightarrow> int \<Rightarrow> int \<Rightarrow> int" where
  "midnight y m d = days_from_civil y m d * ns_per_day"

text \<open>
  Example surroundings. In all of them nothing is read as an amount, a set is gone
  through in the order of its list, and the workbook is written without error. The
  first reads no cell as a date, the second fails on every date column, and the third
  reads the one date text of the example below.
\<close>

definition no_dates :: libs where
  "no_dates =
     \<lparr>parse_date = (\<lambda>c. None), date_error = (\<lambda>cs. None),
      float_reads = (\<lambda>s. False), diff_exceeds = (\<lambda>a b. False), diff_positive = (\<lambda>a b. False),
      diff_text = (\<lambda>a b. []), set_order = (\<lambda>xs. xs),
      open_error = (\<lambda>df. None), close_error = (\<lambda>df. None)\<rparr>"

definition failing_dates :: libs where
  "failing_dates = no_dates\<lparr>date_error := (\<lambda>cs. Some ''unsupported operand'')\<rparr>"


text \<open>A statement of one invoice with a date, and no reference (the four slots of the
  application, all absent).\<close>

definition dated_statement :: worker where
  "dated_statement =
     \<lparr>soa_df = \<lparr>cols = [''Inv'', ''Date''], rows = [[Str ''7'', Str ''2024-06-01 00:00:00'']]\<rparr>,
      soa_match = ''Inv'', soa_date_col = Some ''Date'', soa_amount_col = None,
      ref_configs = [None, None, None, None]\<rparr>"

text \<open>One invoice, and a first reference that lists it five times.\<close>

definition fan_out :: worker where
  "fan_out =
     \<lparr>soa_df = \<lparr>cols = [''Inv''], rows = [[Str ''1'']]\<rparr>,
      soa_match = ''Inv'', soa_date_col = None, soa_amount_col = None,
      ref_configs =
        [Some \<lparr>ref_df = \<lparr>cols = [''Key'', ''Val''],
                          rows = [[Str ''1'', Str ''a''], [Str ''1'', Str ''b''], [Str ''1'', Str ''c''],
                                  [Str ''1'', Str ''d''], [Str ''1'', Str ''e'']]\<rparr>,
               match_col = ''Key'', return_cols = [''Val'']\<rparr>,
         None, None, None]\<rparr>"

text \<open>The same invoice on two statement rows, and a first reference that lists it once.\<close>

definition billed_once :: config where
  "billed_once =
     \<lparr>ref_df = \<lparr>cols = [''Key'', ''Val''], rows = [[Str ''1'', Str ''a'']]\<rparr>,
      match_col = ''Key'', return_cols = [''Val'']\<rparr>"

definition twice_billed :: worker where
  "twice_billed =
     \<lparr>soa_df = \<lparr>cols = [''Inv''], rows = [[Str ''1''], [Str ''1'']]\<rparr>,
      soa_match = ''Inv'', soa_date_col = None, soa_amount_col = None,
      ref_configs = [Some billed_once, None, None, None]\<rparr>"

text \<open>One invoice, and a first reference that lists it twice and for which no return
  column was selected.\<close>

definition no_returns :: worker where
  "no_returns =
     \<lparr>soa_df = \<lparr>cols = [''Inv''], rows = [[Str ''1'']]\<rparr>,
      soa_match = ''Inv'', soa_date_col = None, soa_amount_col = None,
      ref_configs =
        [Some \<lparr>ref_df = \<lparr>cols = [''Key''], rows = [[Str ''1''], [Str ''1'']]\<rparr>,
               match_col = ''Key'', return_cols = []\<rparr>,
         None, None, None]\<rparr>"

text \<open>One invoice, a first reference whose match column \<^verbatim>\<open>Invoice\<close> is not in its
  frame, and a second reference that lists the invoice.\<close>

definition missing_key_slot :: config where
  "missing_key_slot =
     \<lparr>ref_df = \<lparr>cols = [''Key'', ''Val''], rows = [[Str ''1'', Str ''a'']]\<rparr>,
      match_col = ''Invoice'', return_cols = [''Val'']\<rparr>"

definition missing_key :: worker where
  "missing_key =
     \<lparr>soa_df = \<lparr>cols = [''Inv''], rows = [[Str ''1'']]\<rparr>,
      soa_match = ''Inv'', soa_date_col = None, soa_amount_col = None,
      ref_configs =
        [Some missing_key_slot,
         Some \<lparr>ref_df = \<lparr>cols = [''Key'', ''Val''], rows = [[Str ''1'', Str ''b'']]\<rparr>,
               match_col = ''Key'', return_cols = [''Val'']\<rparr>,
         None, None]\<rparr>"

text \<open>One invoice \<^verbatim>\<open>12\<close>, and a first reference whose key is \<^verbatim>\<open>' 12\<close>.\<close>

definition quoted_key :: worker where
  "quoted_key =
     \<lparr>soa_df = \<lparr>cols = [''Inv''], rows = [[Str ''12'']]\<rparr>,
      soa_match = ''Inv'', soa_date_col = None, soa_amount_col = None,
      ref_configs =
        [Some \<lparr>ref_df = \<lparr>cols = [''Key'', ''Val''],
                          rows = [[Str [CHR 0x27, CHR '' '', CHR ''1'', CHR ''2''], Str ''x'']]\<rparr>,
               match_col = ''Key'', return_cols = [''Val'']\<rparr>,
         None, None, None]\<rparr>"

text \<open>Running again on the slots as a first run left them, as the application does
  when the user starts a second run.\<close>

definition run_again :: "libs \<Rightarrow> int \<Rightarrow> worker \<Rightarrow> report" where
  "run_again lib today w = run lib today (w\<lparr>ref_configs := refs_after (run lib today w)\<rparr>)"

text \<open>A slot on which a run can be repeated: its reference frame is rectangular, and
  none of its keys, as text and trimmed, begins with an apostrophe.\<close>

definition rerunnable :: "config \<Rightarrow> bool" where
  "rerunnable c \<longleftrightarrow>
     list_all (\<lambda>r. length r = length (cols (ref_df c))) (rows (ref_df c))
     \<and> list_all (\<lambda>s. \<not> startswith (strip s) [CHR 0x27])
          (astype_str (col_values (ref_df c) (match_col c)))"


section \<open>The sources of a key, in the words of the specification\<close>

text \<open>
  A slot matches a key when some row of its reference frame, with the keys normalised as
  line 437 leaves them, has that key and a first return column that is not missing. The
  sources of a key are the labels of the slots that match it, in slot order.
\<close>

definition spec_slot_matches :: "config \<Rightarrow> string \<Rightarrow> bool" where
  "spec_slot_matches c k =
     (let ref = setcol (ref_df c) (match_col c) (clean_column (col_values (ref_df c) (match_col c)))
      in list_ex (\<lambda>r. r ! col_index (cols ref) (match_col c) = Str k
                      \<and> notna (r ! col_index (cols ref) (hd (return_cols c))))
           (rows ref))"

fun spec_sources :: "nat \<Rightarrow> config option list \<Rightarrow> string \<Rightarrow> string list" where
  "spec_sources idx [] k = []"
| "spec_sources idx (None # rest) k = spec_sources (Suc idx) rest k"
| "spec_sources idx (Some c # rest) k =
     (if spec_slot_matches c k then [ref_label idx] else []) @ spec_sources (Suc idx) rest k"

text \<open>
  A slot whose join is a plain look-up: its reference frame is rectangular, the label of
  its match column does not begin with \<^verbatim>\<open>Ref\<close>, and no two of its rows have the same
  normalised key.
\<close>

definition joinable :: "config \<Rightarrow> bool" where
  "joinable c \<longleftrightarrow>
     list_all (\<lambda>r. length r = length (cols (ref_df c))) (rows (ref_df c))
     \<and> \<not> startswith (match_col c) ''Ref''
     \<and> distinct (clean_column (col_values (ref_df c) (match_col c)))"

text \<open>
  A label that the slots before \<open>i\<close> can have left in the frame: one that does not begin
  with \<^verbatim>\<open>Ref\<close>, or one that begins with the prefix of an earlier slot.
\<close>

definition old_label :: "nat \<Rightarrow> string \<Rightarrow> bool" where
  "old_label i l \<longleftrightarrow>
     \<not> startswith l ''Ref'' \<or> list_ex (\<lambda>j. startswith l (ref_label j @ ''_'')) [0..<i]"

text \<open>
  What holds between two slots, for a statement whose normalised keys \<open>ks\<close> are pairwise
  different: the frame is rectangular and has the match column, the slots from \<open>i\<close> on
  have left no label in it, the match column holds the keys, and the dictionary maps
  each key to the labels \<open>L\<close> gathered so far.
\<close>

definition matched_so_far :: "string \<Rightarrow> string list \<Rightarrow> nat \<Rightarrow> (string \<Rightarrow> string list) \<Rightarrow> state \<Rightarrow> bool" where
  "matched_so_far soa_col ks i L st \<longleftrightarrow>
     list_all (\<lambda>r. length r = length (cols (df_result st))) (rows (df_result st))
     \<and> soa_col \<in> set (cols (df_result st))
     \<and> list_all (old_label i) (cols (df_result st))
     \<and> clean_column (col_values (df_result st) soa_col) = map Str ks
     \<and> match_sources_dict st = (\<lambda>k. if k \<in> set ks then Some (L k) else None)"


text \<open>
  What the join of a slot appends to a row of the running frame whose key is \<open>key\<close>: one
  list of cells for every row that the join makes of it. These are the cells of the
  rows of the reference frame \<open>ref\<close> that have the key, in the order of the frame, or
  missing values when no row has it. The key column of the reference comes with them
  when its label is not the label of the statement's match column.
\<close>

definition extension :: "string \<Rightarrow> config \<Rightarrow> table \<Rightarrow> cell \<Rightarrow> cell list list" where
  "extension soa_col c ref key =
     (let ms = filter (\<lambda>r. r ! col_index (cols ref) (match_col c) = key) (rows ref)
      in if ms = []
         then [replicate (length (if soa_col = match_col c then [] else [match_col c])
                            + length (return_cols c)) NaN]
         else map (\<lambda>r. (if soa_col = match_col c then [] else [r ! col_index (cols ref) (match_col c)])
                        @ map (\<lambda>x. r ! col_index (cols ref) x) (return_cols c)) ms)"
section \<open>Properties of the normaliser\<close>

lemma strip_Nil: "strip [] = []" by (simp add: strip_def)

lemma digit_not_space: "py_isdigit c \<Longrightarrow> \<not> py_isspace c"
  by (auto simp: py_isdigit_def py_isspace_def Let_def)

lemma zero_digit: "py_isdigit (CHR ''0'')" by (simp add: py_isdigit_def)
lemma apos_not_digit: "\<not> py_isdigit (CHR 0x27)" by (simp add: py_isdigit_def)
lemma apos_not_space: "\<not> py_isspace (CHR 0x27)" by (simp add: py_isspace_def)

lemma length_strip: "length (strip s) \<le> length s"
  unfolding strip_def
  by (metis length_dropWhile_le length_rev order_trans)

lemma strip_id:
  assumes "s \<noteq> []" "\<not> py_isspace (hd s)" "\<not> py_isspace (last s)"
  shows "strip s = s"
proof -
  have a: "dropWhile py_isspace s = s"
    using assms by (cases s) auto
  have "rev s \<noteq> []" "\<not> py_isspace (hd (rev s))"
    using assms by (simp_all add: hd_rev)
  then have "dropWhile py_isspace (rev s) = rev s"
    by (cases "rev s") auto
  with a show ?thesis by (simp add: strip_def)
qed

lemma strip_last: "strip s \<noteq> [] \<Longrightarrow> \<not> py_isspace (last (strip s))"
  unfolding strip_def 
  by (metis hd_dropWhile last_rev rev_is_Nil_conv)

lemma strip_prefix:
  "dropWhile py_isspace s = strip s @ rev (takeWhile py_isspace (rev (dropWhile py_isspace s)))"
proof -
  let ?t = "dropWhile py_isspace s"
  have "rev (takeWhile py_isspace (rev ?t) @ dropWhile py_isspace (rev ?t)) = rev (rev ?t)"
    by (simp only: takeWhile_dropWhile_id)
  then have "rev (dropWhile py_isspace (rev ?t)) @ rev (takeWhile py_isspace (rev ?t)) = ?t"
    by (simp only: rev_append rev_rev_ident)
  then show ?thesis
    by (simp only: strip_def)
qed

lemma strip_hd:
  assumes "strip s \<noteq> []"
  shows "\<not> py_isspace (hd (strip s))"
proof -
  let ?t = "dropWhile py_isspace s"
  have "hd ?t = hd (strip s)"
    using assms strip_prefix [of s] by (metis hd_append2)
  moreover have "?t \<noteq> []"
    using assms strip_prefix [of s] by (metis append_is_Nil_conv)
  ultimately show ?thesis
    using hd_dropWhile [of py_isspace s] by simp
qed

lemma strip_shorter:
  assumes "s \<noteq> []" "py_isspace (hd s)"
  shows "length (strip s) < length s"
proof -
  have "length (dropWhile py_isspace s) < length s"
    using assms by (cases s) (auto simp: less_Suc_eq_le length_dropWhile_le)
  moreover have "length (strip s) \<le> length (dropWhile py_isspace s)"
    unfolding strip_def by (metis length_dropWhile_le length_rev)
  ultimately show ?thesis by simp
qed

lemma lstrip_zeros_id: "s \<noteq> [] \<Longrightarrow> hd s \<noteq> CHR ''0'' \<Longrightarrow> lstrip_zeros s = s"
  by (cases s) (auto simp: lstrip_zeros_def)

lemma lstrip_zeros_hd: "lstrip_zeros s \<noteq> [] \<Longrightarrow> hd (lstrip_zeros s) \<noteq> CHR ''0''"
  unfolding lstrip_zeros_def using hd_dropWhile [of "\<lambda>c. c = CHR ''0''" s] by simp

lemma length_lstrip_zeros: "length (lstrip_zeros s) \<le> length s"
  by (simp add: lstrip_zeros_def length_dropWhile_le)

lemma lstrip_zeros_last: "lstrip_zeros s \<noteq> [] \<Longrightarrow> last (lstrip_zeros s) = last s"
  unfolding lstrip_zeros_def
  by (metis last_appendR takeWhile_dropWhile_id)

lemma isdigit_lstrip: "s \<noteq> [] \<Longrightarrow> isdigit (lstrip_zeros s) \<Longrightarrow> isdigit s"
proof -
  assume a: "s \<noteq> []" "isdigit (lstrip_zeros s)"
  have "s = takeWhile (\<lambda>c. c = CHR ''0'') s @ lstrip_zeros s"
    by (simp add: lstrip_zeros_def)
  moreover have "list_all py_isdigit (takeWhile (\<lambda>c. c = CHR ''0'') s)"
    by (induction s) (auto simp: zero_digit)
  ultimately have "list_all py_isdigit s"
    using a(2) by (metis isdigit_def list_all_append)
  with a(1) show ?thesis by (simp add: isdigit_def)
qed

lemma lstrip_digits: "isdigit s \<Longrightarrow> list_all py_isdigit (lstrip_zeros s)"
  unfolding isdigit_def lstrip_zeros_def
  by (metis list_all_append takeWhile_dropWhile_id)

lemma cmv_zstep: "clean_match_value v =
   zstep (if startswith (strip v) [CHR 0x27] then drop 1 (strip v) else strip v)"
  by (simp add: clean_match_value_def zstep_def Let_def)

lemma zstep_Nil: "zstep [] = []" by (simp add: zstep_def isdigit_def)

lemma zstep_length: "length (zstep s) \<le> length s"
proof (cases s)
  case Nil
  then show ?thesis by (simp add: zstep_Nil)
next
  case (Cons a as)
  have "length (lstrip_zeros s) \<le> length s" by (rule length_lstrip_zeros)
  with Cons show ?thesis by (simp add: zstep_def)
qed

lemma zstep_last: "s \<noteq> [] \<Longrightarrow> \<not> py_isspace (last s) \<Longrightarrow> \<not> py_isspace (last (zstep s))"
  by (auto simp: zstep_def lstrip_zeros_last py_isspace_def)

lemma zstep_nonempty: "s \<noteq> [] \<Longrightarrow> zstep s \<noteq> []"
  by (auto simp: zstep_def)

lemma zstep_fix: "zstep (zstep s) = zstep s"
proof (cases "isdigit s \<or> (s \<noteq> [] \<and> isdigit (lstrip_zeros s))")
  case False
  then have "zstep s = s" unfolding zstep_def by (rule if_not_P)
  then show ?thesis by simp
next
  case True
  then have d: "isdigit s" using isdigit_lstrip by blast
  show ?thesis
  proof (cases "lstrip_zeros s = []")
    case True
    with d show ?thesis by (simp add: zstep_def isdigit_def lstrip_zeros_def zero_digit)
  next
    case False
    then have "lstrip_zeros (lstrip_zeros s) = lstrip_zeros s"
      using lstrip_zeros_hd lstrip_zeros_id by blast
    moreover have "isdigit (lstrip_zeros s)"
      using False d lstrip_digits by (simp add: isdigit_def)
    ultimately show ?thesis using d False by (simp add: zstep_def)
  qed
qed

lemma zstep_hd_digit: "isdigit s \<Longrightarrow> py_isdigit (hd (zstep s))"
proof -
  assume d: "isdigit s"
  show ?thesis
  proof (cases "lstrip_zeros s = []")
    case True
    with d show ?thesis by (simp add: zstep_def zero_digit)
  next
    case False
    then show ?thesis using d lstrip_digits [OF d]
      by (cases "lstrip_zeros s") (auto simp: zstep_def)
  qed
qed

lemma zstep_hd_other: "\<not> isdigit s \<Longrightarrow> zstep s = s"
  using isdigit_lstrip by (auto simp: zstep_def)


lemma cmv_last: "clean_match_value v \<noteq> [] \<Longrightarrow> \<not> py_isspace (last (clean_match_value v))"
proof -
  assume ne: "clean_match_value v \<noteq> []"
  let ?s1 = "if startswith (strip v) [CHR 0x27] then drop 1 (strip v) else strip v"
  have s1: "?s1 \<noteq> []" using ne zstep_Nil by (auto simp: cmv_zstep)
  then have sv: "strip v \<noteq> []" by (auto split: if_splits)
  have "last ?s1 = last (strip v)"
    using s1 by (auto simp: drop_Suc last_tl split: if_splits)
  then have "\<not> py_isspace (last ?s1)" using strip_last [OF sv] by simp
  then show ?thesis using zstep_last [OF s1] by (simp add: cmv_zstep)
qed

lemma cmv_zstep_fix: "zstep (clean_match_value v) = clean_match_value v"
  by (simp add: cmv_zstep zstep_fix)

lemma cmv_fix_if:
  assumes "clean_match_value v = [] \<or>
           (\<not> py_isspace (hd (clean_match_value v)) \<and> hd (clean_match_value v) \<noteq> CHR 0x27)"
  shows "clean_match_value (clean_match_value v) = clean_match_value v"
proof (cases "clean_match_value v = []")
  case True
  then show ?thesis by (simp add: cmv_zstep strip_Nil startswith_def zstep_Nil)
next
  case False
  let ?r = "clean_match_value v"
  have h: "\<not> py_isspace (hd ?r)" "hd ?r \<noteq> CHR 0x27" using assms False by auto
  have "strip ?r = ?r" using strip_id [OF False h(1) cmv_last [OF False]] .
  moreover have "\<not> startswith ?r [CHR 0x27]"
    using False h(2) by (cases ?r) (auto simp: startswith_def)
  ultimately have "clean_match_value ?r = zstep ?r"
    by (simp add: cmv_zstep [of ?r])
  then show ?thesis by (simp add: cmv_zstep_fix)
qed

lemma cmv_length: "length (clean_match_value v) \<le> length v"
proof -
  let ?s1 = "if startswith (strip v) [CHR 0x27] then drop 1 (strip v) else strip v"
  have "length ?s1 \<le> length (strip v)" by simp
  then show ?thesis
    using zstep_length [of ?s1] length_strip [of v] by (simp add: cmv_zstep)
qed

lemma cmv_shorter:
  assumes "r \<noteq> []" "py_isspace (hd r) \<or> hd r = CHR 0x27"
  shows "length (clean_match_value r) < length r"
proof (cases "py_isspace (hd r)")
  case True
  let ?s1 = "if startswith (strip r) [CHR 0x27] then drop 1 (strip r) else strip r"
  have "length ?s1 \<le> length (strip r)" by simp
  then show ?thesis
    using zstep_length [of ?s1] strip_shorter [OF assms(1) True] by (simp add: cmv_zstep)
next
  case False
  then have a: "hd r = CHR 0x27" using assms by simp
  have dw: "dropWhile py_isspace r = r" using assms(1) False by (cases r) auto
  have "strip r \<noteq> []"
  proof
    assume e: "strip r = []"
    then have "dropWhile py_isspace (rev r) = []" by (simp add: strip_def dw)
    then have "\<forall>c\<in>set r. py_isspace c" by (simp add: dropWhile_eq_Nil_conv)
    then show False using assms(1) False by (cases r) auto
  qed
  moreover have "hd (strip r) = hd r"
    using strip_prefix [of r] calculation by (metis dw hd_append2)
  ultimately have sw: "startswith (strip r) [CHR 0x27]"
    using a by (cases "strip r") (auto simp: startswith_def)
  have "length (drop 1 (strip r)) < length r"
    using \<open>strip r \<noteq> []\<close> length_strip [of r] by (cases "strip r") auto
  then show ?thesis
    using sw zstep_length [of "drop 1 (strip r)"] by (simp add: cmv_zstep)
qed

lemma cmv_idem_iff:
  "clean_match_value (clean_match_value v) = clean_match_value v \<longleftrightarrow>
   (clean_match_value v = [] \<or>
    (\<not> py_isspace (hd (clean_match_value v)) \<and> hd (clean_match_value v) \<noteq> CHR 0x27))"
  using cmv_fix_if [of v] cmv_shorter [of "clean_match_value v"]
  by (metis less_irrefl)

lemma cmv_idem_plain:
  assumes "\<not> startswith (strip v) [CHR 0x27]"
  shows "clean_match_value (clean_match_value v) = clean_match_value v"
proof (cases "clean_match_value v = []")
  case True
  then show ?thesis using cmv_fix_if by blast
next
  case False
  have r: "clean_match_value v = zstep (strip v)" using assms by (simp add: cmv_zstep)
  have sv: "strip v \<noteq> []" using False r zstep_Nil by auto
  have hs: "\<not> py_isspace (hd (strip v))" using strip_hd [OF sv] .
  have ha: "hd (strip v) \<noteq> CHR 0x27"
    using assms sv by (cases "strip v") (auto simp: startswith_def)
  show ?thesis
  proof (cases "isdigit (strip v)")
    case True
    then have "py_isdigit (hd (clean_match_value v))" using zstep_hd_digit r by simp
    then show ?thesis using cmv_fix_if [of v] digit_not_space apos_not_digit by metis
  next
    case False
    then have "clean_match_value v = strip v" using r zstep_hd_other by simp
    then show ?thesis using cmv_fix_if [of v] hs ha by simp
  qed
qed

lemma zstep_hd_plain:
  assumes "s \<noteq> []" "\<not> py_isspace (hd s)" "hd s \<noteq> CHR 0x27"
  shows "\<not> py_isspace (hd (zstep s)) \<and> hd (zstep s) \<noteq> CHR 0x27"
proof (cases "zstep s = s")
  case True
  then show ?thesis using assms by simp
next
  case False
  then have d: "isdigit s \<or> (s \<noteq> [] \<and> isdigit (lstrip_zeros s))"
    by (auto simp: zstep_def split: if_splits)
  then have "isdigit s" using isdigit_lstrip assms(1) by blast
  then have "py_isdigit (hd (zstep s))" by (rule zstep_hd_digit)
  then show ?thesis using digit_not_space apos_not_digit by metis
qed

lemma zstep_hd_bad:
  assumes "s \<noteq> []" "py_isspace (hd s) \<or> hd s = CHR 0x27"
  shows "zstep s = s"
proof -
  have "\<not> py_isdigit (hd s)" using assms(2) digit_not_space apos_not_digit by metis
  then have "\<not> isdigit s" using assms(1) by (cases s) (auto simp: isdigit_def)
  then show ?thesis by (rule zstep_hd_other)
qed

lemma cmv_idem_input:
  "clean_match_value (clean_match_value v) = clean_match_value v \<longleftrightarrow>
   \<not> (startswith (strip v) [CHR 0x27] \<and> drop 1 (strip v) \<noteq> []
       \<and> (py_isspace (hd (drop 1 (strip v))) \<or> hd (drop 1 (strip v)) = CHR 0x27))"
proof (cases "startswith (strip v) [CHR 0x27]")
  case False
  then show ?thesis using cmv_idem_plain by simp
next
  case True
  let ?r = "drop 1 (strip v)"
  have c: "clean_match_value v = zstep ?r" using True by (simp add: cmv_zstep)
  show ?thesis
  proof (cases "?r = []")
    case True
    then have "clean_match_value v = []" using c zstep_Nil by simp
    then show ?thesis using cmv_idem_iff [of v] True by simp
  next
    case ne: False
    show ?thesis
    proof (cases "py_isspace (hd ?r) \<or> hd ?r = CHR 0x27")
      case True
      then have "zstep ?r = ?r" using ne zstep_hd_bad by blast
      then show ?thesis using cmv_idem_iff [of v] c ne True \<open>startswith (strip v) [CHR 0x27]\<close> by auto
    next
      case False
      then have "\<not> py_isspace (hd (zstep ?r)) \<and> hd (zstep ?r) \<noteq> CHR 0x27"
        using ne zstep_hd_plain by blast
      then show ?thesis using cmv_idem_iff [of v] c False by simp
    qed
  qed
qed

text \<open>
  Claim C1, as the code has it. The normaliser removes one leading apostrophe, once,
  and trims before it does so, not after: \<^verbatim>\<open>''a\<close> is normalised to \<^verbatim>\<open>'a\<close>, and that to
  \<^verbatim>\<open>a\<close>. Normalising twice gives the same as normalising once exactly on the values
  whose trimmed text is not an apostrophe followed by another apostrophe or by white
  space; among them are all values without a leading apostrophe and the text-forcing
  artefacts of a spreadsheet such as \<^verbatim>\<open>'0308607218\<close>.
\<close>

theorem clean_match_value_idempotent_iff:
  "clean_match_value (clean_match_value v) = clean_match_value v \<longleftrightarrow>
   \<not> (startswith (strip v) [CHR 0x27] \<and> drop 1 (strip v) \<noteq> []
       \<and> (py_isspace (hd (drop 1 (strip v))) \<or> hd (drop 1 (strip v)) = CHR 0x27))"
  by (rule cmv_idem_input)

theorem clean_match_value_idempotent_witness:
  "clean_match_value (CHR 0x27 # ''0308607218'') = ''308607218'' \<and>
   clean_match_value (clean_match_value (CHR 0x27 # ''0308607218''))
     = clean_match_value (CHR 0x27 # ''0308607218'') \<and>
   clean_match_value (clean_match_value ''0308607218'') = clean_match_value ''0308607218''"
proof -
  have a: "strip (CHR 0x27 # ''0308607218'') = CHR 0x27 # ''0308607218''"
    "strip ''0308607218'' = ''0308607218''"
    by (simp_all add: strip_def py_isspace_def)
  have b: "\<not> py_isspace (CHR ''0'')"
    by (simp add: py_isspace_def)
  have c: "clean_match_value (CHR 0x27 # ''0308607218'') = ''308607218''"
    by (simp add: clean_match_value_def startswith_def strip_def py_isspace_def
        py_isdigit_def isdigit_def lstrip_zeros_def)
  show ?thesis
    using c clean_match_value_idempotent_iff [of "CHR 0x27 # ''0308607218''"]
      clean_match_value_idempotent_iff [of "''0308607218''"]
    by (simp add: a b startswith_def)
qed

theorem clean_match_value_not_idempotent:
  "clean_match_value (clean_match_value [CHR 0x27, CHR 0x27, CHR ''a''])
     \<noteq> clean_match_value [CHR 0x27, CHR 0x27, CHR ''a'']"
  by (simp add: clean_match_value_def startswith_def strip_def py_isspace_def
      py_isdigit_def isdigit_def lstrip_zeros_def)

section \<open>Ageing: buckets and the fatal date error\<close>

lemma midnight_june: 
  "midnight 2024 6 30 = 19904 * ns_per_day" "midnight 2024 6 16 = 19890 * ns_per_day"
  "midnight 2024 6 15 = 19889 * ns_per_day" "midnight 2024 6 1 = 19875 * ns_per_day"
  by (simp_all add: midnight_def days_from_civil_def)

lemma age_of_day:
  assumes "0 \<le> t" "t < ns_per_day"
  shows "age_days (a * ns_per_day + t) (Some (b * ns_per_day)) = Some (a - b)"
proof -
  have p: "0 < ns_per_day" by (simp add: ns_per_day_def)
  have e: "(a * ns_per_day + t) - b * ns_per_day = (a - b) * ns_per_day + t"
    by (simp add: algebra_simps)
  have "((a - b) * ns_per_day + t) div ns_per_day = a - b"
    using assms p by (simp add: div_pos_pos_trivial)
  then show ?thesis unfolding age_days_def by (simp only: e option.map)
qed

text \<open>
  Claim C3. The bucket of a missing age is \<^verbatim>\<open>Unknown\<close>; an age of \<open>d\<close> whole days falls
  into \<^verbatim>\<open>0-15\<close> up to 15, \<^verbatim>\<open>16-30\<close> from 16 to 30, \<^verbatim>\<open>31-60\<close> from 31 to 60,
  \<^verbatim>\<open>61-90\<close> from 61 to 90, \<^verbatim>\<open>91-120\<close> from 91 to 120 and \<^verbatim>\<open>121+\<close> from 121 on.
  When the run happens at any time \<open>t\<close> of 30 June 2024, a row dated 16 June is 14 days
  old and one dated 15 June is 15 days old, both in \<^verbatim>\<open>0-15\<close>, and a row dated 1 June is
  29 days old, in \<^verbatim>\<open>16-30\<close>; a cell that the parser cannot read (\<^verbatim>\<open>NaT\<close>) has a missing
  age and the bucket \<^verbatim>\<open>Unknown\<close>.
\<close>

theorem bucket_policy:
  "bucket None = ''Unknown''
   \<and> (d \<le> 15 \<longrightarrow> bucket (Some d) = ''0-15'')
   \<and> (16 \<le> d \<and> d \<le> 30 \<longrightarrow> bucket (Some d) = ''16-30'')
   \<and> (31 \<le> d \<and> d \<le> 60 \<longrightarrow> bucket (Some d) = ''31-60'')
   \<and> (61 \<le> d \<and> d \<le> 90 \<longrightarrow> bucket (Some d) = ''61-90'')
   \<and> (91 \<le> d \<and> d \<le> 120 \<longrightarrow> bucket (Some d) = ''91-120'')
   \<and> (121 \<le> d \<longrightarrow> bucket (Some d) = ''121+'')
   \<and> (0 \<le> t \<and> t < ns_per_day \<longrightarrow>
        age_days (midnight 2024 6 30 + t) (Some (midnight 2024 6 16)) = Some 14
        \<and> bucket (age_days (midnight 2024 6 30 + t) (Some (midnight 2024 6 16))) = ''0-15''
        \<and> age_days (midnight 2024 6 30 + t) (Some (midnight 2024 6 15)) = Some 15
        \<and> bucket (age_days (midnight 2024 6 30 + t) (Some (midnight 2024 6 15))) = ''0-15''
        \<and> age_days (midnight 2024 6 30 + t) (Some (midnight 2024 6 1)) = Some 29
        \<and> bucket (age_days (midnight 2024 6 30 + t) (Some (midnight 2024 6 1))) = ''16-30'')
   \<and> age_days today None = None
   \<and> age_cell (age_days today None) = NaN
   \<and> bucket (age_days today None) = ''Unknown''"
proof -
  have a: "0 \<le> t \<and> t < ns_per_day \<longrightarrow>
        age_days (midnight 2024 6 30 + t) (Some (midnight 2024 6 16)) = Some 14
        \<and> age_days (midnight 2024 6 30 + t) (Some (midnight 2024 6 15)) = Some 15
        \<and> age_days (midnight 2024 6 30 + t) (Some (midnight 2024 6 1)) = Some 29"
    using age_of_day [of t 19904 19890] age_of_day [of t 19904 19889] age_of_day [of t 19904 19875]
    by (simp add: midnight_june)
  have b: "bucket (Some 14) = ''0-15''" "bucket (Some 15) = ''0-15''" "bucket (Some 29) = ''16-30''"
    by (simp_all add: bucket_def)
  have c: "bucket None = ''Unknown''" "age_days today None = None" "age_cell None = NaN"
    by (simp_all add: bucket_def age_days_def age_cell_def)
  have d: "(d \<le> 15 \<longrightarrow> bucket (Some d) = ''0-15'')
   \<and> (16 \<le> d \<and> d \<le> 30 \<longrightarrow> bucket (Some d) = ''16-30'')
   \<and> (31 \<le> d \<and> d \<le> 60 \<longrightarrow> bucket (Some d) = ''31-60'')
   \<and> (61 \<le> d \<and> d \<le> 90 \<longrightarrow> bucket (Some d) = ''61-90'')
   \<and> (91 \<le> d \<and> d \<le> 120 \<longrightarrow> bucket (Some d) = ''91-120'')
   \<and> (121 \<le> d \<longrightarrow> bucket (Some d) = ''121+'')"
    by (simp add: bucket_def)
  show ?thesis using a b c d by simp
qed

theorem bucket_policy_witness:
  "bucket (Some 15) = ''0-15'' \<and> bucket (Some 16) = ''16-30'' \<and> bucket (Some 31) = ''31-60''
   \<and> bucket (Some 90) = ''61-90'' \<and> bucket (Some 120) = ''91-120'' \<and> bucket (Some 121) = ''121+''
   \<and> (0::int) \<le> 36000000000000 \<and> 36000000000000 < ns_per_day
   \<and> bucket (age_days (midnight 2024 6 30 + 36000000000000) (Some (midnight 2024 6 15))) = ''0-15''
   \<and> bucket (age_days (midnight 2024 6 30 + 36000000000000) (Some (midnight 2024 6 1))) = ''16-30''"
  using bucket_policy [of 15 36000000000000] bucket_policy [of 16 0] bucket_policy [of 31 0]
    bucket_policy [of 90 0] bucket_policy [of 120 0] bucket_policy [of 121 0]
  by (simp add: ns_per_day_def)

text \<open>
  Claim C5. When a date column is designated and in the frame, and handling it raises,
  the run stops at once: it sends the warning as a status and into the log, emits no
  progress and no frame, and leaves the reference slots unread and unchanged.
\<close>

theorem date_error_aborts_run:
  assumes "soa_date_col w = Some date_col" "date_col \<noteq> []" "date_col \<in> set (cols (soa_df w))"
    and "date_error lib (col_values (soa_df w) date_col) = Some msg"
  shows "run lib today w =
           \<lparr>outcome = Aborted,
            events = [Status (''[WARNING] Age Bucket Error: '' @ msg), Log (''Age Bucket Error: '' @ msg)],
            refs_after = ref_configs w\<rparr>"
  using assms by (simp add: run_def age_step_def)

theorem date_error_aborts_run_witness:
  "soa_date_col dated_statement = Some ''Date'' \<and> ''Date'' \<noteq> [] 
   \<and> ''Date'' \<in> set (cols (soa_df dated_statement))
   \<and> date_error failing_dates (col_values (soa_df dated_statement) ''Date'') = Some ''unsupported operand''
   \<and> outcome (run failing_dates 0 dated_statement) = Aborted
   \<and> progress (run failing_dates 0 dated_statement) = []
   \<and> statuses (run failing_dates 0 dated_statement) = [''[WARNING] Age Bucket Error: unsupported operand'']"
proof -
  have h: "soa_date_col dated_statement = Some ''Date''" "''Date'' \<noteq> []"
    "''Date'' \<in> set (cols (soa_df dated_statement))"
    "date_error failing_dates (col_values (soa_df dated_statement) ''Date'') = Some ''unsupported operand''"
    by (simp_all add: dated_statement_def failing_dates_def no_dates_def)
  show ?thesis
    using h date_error_aborts_run [OF h, of 0]
    by (simp add: progress_def statuses_def)
qed

section \<open>Frames and the ageing step\<close>

lemma col_index_Cons: "col_index (d # cs) c = (if d = c then 0 else Suc (col_index cs c))"
  unfolding col_index_def by simp

lemma col_index_Nil: "col_index [] c = 0"
  unfolding col_index_def by simp

lemma col_index_less: "c \<in> set cs \<Longrightarrow> col_index cs c < length cs"
  by (induction cs) (auto simp: col_index_Cons)

lemma col_index_nth: "c \<in> set cs \<Longrightarrow> cs ! col_index cs c = c"
  by (induction cs) (auto simp: col_index_Cons)

lemma col_index_append_in: "c \<in> set cs \<Longrightarrow> col_index (cs @ ds) c = col_index cs c"
  by (induction cs) (auto simp: col_index_Cons)

lemma col_index_append_out: "c \<notin> set cs \<Longrightarrow> col_index (cs @ ds) c = length cs + col_index ds c"
  by (induction cs) (auto simp: col_index_Cons)



lemma filter_labels_id: "c \<notin> set cs \<Longrightarrow> filter (\<lambda>x. x \<noteq> c) cs = cs"
  by (induction cs) auto

lemma filter_zip_id:
  "c \<notin> set cs \<Longrightarrow> length r = length cs \<Longrightarrow>
   map snd (filter (\<lambda>(x, v). x \<noteq> c) (zip cs r)) = r"
proof -
  assume a: "c \<notin> set cs" "length r = length cs"
  have "filter (\<lambda>(x, v). x \<noteq> c) (zip cs r) = zip cs r"
    using a(1) by (auto simp: filter_id_conv dest: set_zip_leftD)
  then show ?thesis using a(2) by simp
qed






section \<open>Progress\<close>

text \<open>
  Claim C7, at a statement of one row whose key the first reference lists five times.
  The total of line 425 counts the rows of the statement before any join, four slots
  times one row; the join of slot 1 yields five rows, and the loop of lines 445 to 452
  emits one value per joined row. The values emitted are 25, 50, 75, 100, 125 and then
  the final 100: one of them is above 100, and the sequence goes down at its end.
\<close>

theorem progress_exceeds_100_on_fan_out:
  "progress (run no_dates 0 fan_out) = [25, 50, 75, 100, 125, 100]"
  by code_simp

section \<open>The loop over the joined rows\<close>

lemma append_source_apply:
  "append_source key lbl d k =
     (if k = key then map_option (\<lambda>l. l @ [lbl]) (d k) else d k)"
  by (cases "d key") (auto simp: append_source_def)

lemma match_rows_closed:
  assumes "soa_col \<in> set cs" "0 < tsteps"
  shows "match_rows lbl soa_col tsteps cs items st =
     ((st\<lparr>match_sources_dict :=
            (\<lambda>k. map_option
                    (\<lambda>l. l @ replicate
                       (length (filter (\<lambda>(matched, row). matched \<and>
                            clean_match_value (py_str (row ! col_index cs soa_col)) = k) items)) lbl)
                    (match_sources_dict st k)),
          current_step := current_step st + length items\<rparr>,
       map (\<lambda>n. Progress (percent n tsteps))
           [Suc (current_step st) ..< Suc (current_step st + length items)]),
      None)"
  using assms
proof (induction items arbitrary: st)
  case Nil
  have "(\<lambda>k. map_option (\<lambda>l. l) (match_sources_dict st k)) = match_sources_dict st"
    by (simp add: fun_eq_iff option.map_ident)
  then show ?case by simp
next
  case (Cons item items)
  obtain matched row where item: "item = (matched, row)" by (cases item)
  let ?key = "clean_match_value (py_str (row ! col_index cs soa_col))"
  let ?st1 = "if matched
              then st\<lparr>match_sources_dict := append_source ?key lbl (match_sources_dict st)\<rparr>
              else st"
  let ?st2 = "?st1\<lparr>current_step := current_step ?st1 + 1\<rparr>"
  have step: "current_step ?st2 = Suc (current_step st)" by simp
  have dict: "map_option (\<lambda>l. l @ replicate
                 (length (filter (\<lambda>(m, r). m \<and> clean_match_value (py_str (r ! col_index cs soa_col)) = k) items)) lbl)
                (match_sources_dict ?st2 k)
            = map_option (\<lambda>l. l @ replicate
                 (length (filter (\<lambda>(m, r). m \<and> clean_match_value (py_str (r ! col_index cs soa_col)) = k) (item # items))) lbl)
                (match_sources_dict st k)" for k
    by (cases "match_sources_dict st k")
       (auto simp: item append_source_apply replicate_append_same)
  have ih: "match_rows lbl soa_col tsteps cs items ?st2 =
     ((?st2\<lparr>match_sources_dict :=
            (\<lambda>k. map_option
                    (\<lambda>l. l @ replicate
                       (length (filter (\<lambda>(matched, row). matched \<and>
                            clean_match_value (py_str (row ! col_index cs soa_col)) = k) items)) lbl)
                    (match_sources_dict ?st2 k)),
          current_step := current_step ?st2 + length items\<rparr>,
       map (\<lambda>n. Progress (percent n tsteps))
           [Suc (current_step ?st2) ..< Suc (current_step ?st2 + length items)]),
      None)"
    using Cons.IH [OF Cons.prems] .
  have evs: "Progress (percent (current_step ?st2) tsteps) #
             map (\<lambda>n. Progress (percent n tsteps)) [Suc (current_step ?st2) ..< Suc (current_step ?st2 + length items)]
           = map (\<lambda>n. Progress (percent n tsteps))
               [Suc (current_step st) ..< Suc (current_step st + length (item # items))]"
  proof -
    have "[Suc (current_step st) ..< Suc (current_step st + length (item # items))]
            = Suc (current_step st) # [Suc (Suc (current_step st)) ..< Suc (Suc (current_step st) + length items)]"
      by (simp del: upt_Suc add: upt_conv_Cons)
    then show ?thesis unfolding step by (simp del: upt_Suc)
  qed
  have "match_rows lbl soa_col tsteps cs (item # items) st =
          (case match_rows lbl soa_col tsteps cs items ?st2 of
             ((st', evs), err) \<Rightarrow> ((st', Progress (percent (current_step ?st2) tsteps) # evs), err))"
    using Cons.prems by (simp add: item Let_def)
  also have "\<dots> = ((?st2\<lparr>match_sources_dict :=
            (\<lambda>k. map_option
                    (\<lambda>l. l @ replicate
                       (length (filter (\<lambda>(matched, row). matched \<and>
                            clean_match_value (py_str (row ! col_index cs soa_col)) = k) items)) lbl)
                    (match_sources_dict ?st2 k)),
          current_step := current_step ?st2 + length items\<rparr>,
       map (\<lambda>n. Progress (percent n tsteps))
               [Suc (current_step st) ..< Suc (current_step st + length (item # items))]), None)"
    unfolding ih using evs by (simp del: upt_Suc)
  finally show ?case
    by (simp only: dict) (simp del: upt_Suc split: if_splits)
qed

section \<open>The loop over the slots\<close>

lemma cols_setcol: "set (cols (setcol t c vs)) = insert c (set (cols t))"
  by (auto simp: setcol_def)

lemma cols_setcol_in: "c \<in> set (cols t) \<Longrightarrow> cols (setcol t c vs) = cols t"
  by (simp add: setcol_def)

lemma startswith_append: "startswith (p @ s) p"
  by (simp add: startswith_def)

lemma startswith_ref_col_name: "startswith (ref_col_name idx x) ''Ref''"
  by (simp add: ref_col_name_def ref_label_def startswith_def)

lemma suffixed_keeps:
  "c \<in> set cs \<Longrightarrow> c \<notin> set to_rename \<Longrightarrow> c \<in> set (suffixed to_rename cs sfx)"
  by (auto simp: suffixed_def)

lemma cols_drop_col: "cols (drop_col c t) = filter (\<lambda>x. x \<noteq> c) (cols t)"
  by (simp add: drop_col_def)

lemma merge_left_keeps_label:
  assumes m: "merge_left left right left_on right_on = Inr merged"
    and c: "c \<in> set (cols left)"
    and out: "c \<notin> set (cols (if left_on = right_on then drop_col right_on right else right))"
  shows "c \<in> set (cols merged)"
proof -
  let ?right' = "if left_on = right_on then drop_col right_on right else right"
  let ?tr = "filter (\<lambda>c. c \<in> set (cols ?right')) (cols left)"
  have "cols merged = suffixed ?tr (cols left) ''_x'' @ suffixed ?tr (cols ?right') ''_y''"
    using m by (auto simp: merge_left_def Let_def split: if_splits)
  moreover have "c \<notin> set ?tr" using out by simp
  ultimately show ?thesis using c suffixed_keeps by simp
qed

lemma select_cols_cols: "select_cols t cs = Inr s \<Longrightarrow> cols s = cs"
  by (auto simp: select_cols_def split: list.splits)

lemma join_slot_keeps_soa:
  assumes j: "join_slot soa_col idx c ref df = Inr merged"
    and s: "soa_col \<in> set (cols df)"
    and p: "\<not> startswith soa_col ''Ref''"
  shows "soa_col \<in> set (cols merged)"
proof -
  from j obtain selected where sel: "select_cols ref (match_col c # return_cols c) = Inr selected"
    and m: "merge_left df (selected\<lparr>cols := match_col c # map (ref_col_name idx) (return_cols c)\<rparr>)
               soa_col (match_col c) = Inr merged"
    by (auto simp: join_slot_def Let_def split: sum.splits)
  let ?ext = "selected\<lparr>cols := match_col c # map (ref_col_name idx) (return_cols c)\<rparr>"
  have nr: "soa_col \<notin> set (map (ref_col_name idx) (return_cols c))"
    using p startswith_ref_col_name by auto
  have "soa_col \<notin> set (cols (if soa_col = match_col c then drop_col (match_col c) ?ext else ?ext))"
    using nr by (auto simp: cols_drop_col)
  with m s show ?thesis by (rule merge_left_keeps_label)
qed

lemma match_rows_df:
  "match_rows lbl soa_col tsteps cs items st = ((st', evs), err) \<Longrightarrow> df_result st' = df_result st"
proof (induction items arbitrary: st st' evs err)
  case Nil
  then show ?case by simp
next
  case (Cons item items)
  obtain matched row where item: "item = (matched, row)" by (cases item)
  show ?case
  proof (cases "(matched \<and> soa_col \<notin> set cs) \<or> tsteps = 0")
    case True
    then show ?thesis using Cons.prems by (auto simp: item Let_def split: if_splits)
  next
    case False
    let ?st1 = "if matched
              then st\<lparr>match_sources_dict := append_source (clean_match_value (py_str (row ! col_index cs soa_col))) lbl (match_sources_dict st)\<rparr>
              else st"
    let ?st2 = "?st1\<lparr>current_step := current_step ?st1 + 1\<rparr>"
    obtain st'' evs'' err'' where r: "match_rows lbl soa_col tsteps cs items ?st2 = ((st'', evs''), err'')"
      by (metis prod.exhaust)
    have c1: "\<not> (matched \<and> soa_col \<notin> set cs)" and c2: "tsteps \<noteq> 0" using False by auto
    have "match_rows lbl soa_col tsteps cs (item # items) st =
            ((st'', Progress (percent (current_step ?st2) tsteps) # evs''), err'')"
      unfolding item match_rows.simps Let_def using c1 c2 r by (simp only: if_False prod.case)
    then have "st' = st''" using Cons.prems by simp
    moreover have "df_result st'' = df_result ?st2" using Cons.IH [OF r] .
    ultimately show ?thesis by simp
  qed
qed

lemma mark_matches_keeps_label:
  assumes "mark_matches soa_col tsteps idx c st = ((st', evs), err)" "l \<in> set (cols (df_result st))"
  shows "l \<in> set (cols (df_result st'))"
proof (cases "return_cols c")
  case Nil
  then show ?thesis using assms by (simp add: mark_matches_def)
next
  case (Cons first_return rest)
  show ?thesis
  proof (cases "getcol (df_result st) (ref_col_name idx first_return)")
    case (Inl e)
    then show ?thesis using assms Cons by (simp add: mark_matches_def)
  next
    case (Inr matched_col)
    obtain st1 evs1 err1 where r: "match_rows (ref_label idx) soa_col tsteps (cols (df_result st))
                       (zip (map notna matched_col) (rows (df_result st))) st = ((st1, evs1), err1)"
      by (metis prod.exhaust)
    have d: "df_result st1 = df_result st" using match_rows_df [OF r] .
    show ?thesis
      using assms Cons Inr r d
      by (auto simp: mark_matches_def insert_last_def split: option.splits if_splits)
  qed
qed

lemma slot_rest_keeps_soa:
  assumes b: "slot_rest soa_col tsteps idx c ref st = ((st', evs), err)"
    and s: "soa_col \<in> set (cols (df_result st))"
    and p: "\<not> startswith soa_col ''Ref''"
  shows "soa_col \<in> set (cols (df_result st'))"
proof -
  obtain soa_keys where k: "getcol (df_result st) soa_col = Inr soa_keys"
    using s by (simp add: getcol_def)
  let ?st1 = "st\<lparr>df_result := setcol (df_result st) soa_col (clean_column soa_keys)\<rparr>"
  have s1: "soa_col \<in> set (cols (df_result ?st1))" using s by (simp add: cols_setcol)
  show ?thesis
  proof (cases "join_slot soa_col idx c ref (df_result ?st1)")
    case (Inl e)
    then show ?thesis using b k s1 by (simp add: slot_rest_def Let_def)
  next
    case merged: (Inr merged)
    have sm: "soa_col \<in> set (cols merged)"
      using join_slot_keeps_soa [OF merged s1 p] .
    have mm: "mark_matches soa_col tsteps idx c (?st1\<lparr>df_result := merged\<rparr>) = ((st', evs), err)"
      using b k merged by (simp add: slot_rest_def Let_def)
    show ?thesis
      using mark_matches_keeps_label [OF mm] sm by simp
  qed
qed

lemma slot_body_keeps_soa:
  assumes b: "slot_body soa_col tsteps idx c st = (((st', ref'), evs), err)"
    and s: "soa_col \<in> set (cols (df_result st))"
    and p: "\<not> startswith soa_col ''Ref''"
  shows "soa_col \<in> set (cols (df_result st'))"
proof (cases "getcol (ref_df c) (match_col c)")
  case (Inl e)
  then show ?thesis using b s by (simp add: slot_body_def)
next
  case (Inr ref_keys)
  let ?ref = "setcol (ref_df c) (match_col c) (clean_column ref_keys)"
  obtain st1 evs1 err1 where r: "slot_rest soa_col tsteps idx c ?ref st = ((st1, evs1), err1)"
    by (metis prod.exhaust)
  have "st' = st1" using b Inr r by (simp add: slot_body_def Let_def)
  then show ?thesis using slot_rest_keeps_soa [OF r s p] by simp
qed

lemma run_slots_keeps_soa:
  assumes "run_slots lib soa_col tsteps idx cfgs st = ((st', evs), refs)"
    and "soa_col \<in> set (cols (df_result st))"
    and "\<not> startswith soa_col ''Ref''"
  shows "soa_col \<in> set (cols (df_result st'))"
  using assms
proof (induction lib soa_col tsteps idx cfgs st arbitrary: st' evs refs rule: run_slots.induct)
  case (1 lib soa_col tsteps idx st)
  then show ?case by simp
next
  case (2 lib soa_col tsteps idx rest st)
  obtain st1 evs1 refs1 where r: "run_slots lib soa_col tsteps (Suc idx) rest st = ((st1, evs1), refs1)"
    by (metis prod.exhaust)
  have "st' = st1" using "2.prems"(1) r by simp
  then show ?case using "2.IH" [OF r "2.prems"(2,3)] by simp
next
  case (3 lib soa_col tsteps idx c rest st)
  obtain st1 ref1 evs1 err1 where b: "slot_body soa_col tsteps idx c st = (((st1, ref1), evs1), err1)"
    by (metis prod.exhaust)
  obtain st2 evs2 refs2 where r: "run_slots lib soa_col tsteps (Suc idx) rest st1 = ((st2, evs2), refs2)"
    by (metis prod.exhaust)
  have s1: "soa_col \<in> set (cols (df_result st1))"
    using slot_body_keeps_soa [OF b "3.prems"(2,3)] .
  have "st' = st2" using "3.prems"(1) b r by (simp add: Let_def)
  moreover have "soa_col \<in> set (cols (df_result st2))"
    using "3.IH" [OF b [symmetric] refl refl refl r s1 "3.prems"(3)] .
  ultimately show ?case by simp
qed

lemma finish_ok: "soa_col \<in> set (cols (df_result st)) \<Longrightarrow> \<exists>out. finish soa_col st = Inr out"
  by (simp add: finish_def getcol_def Let_def)

lemma reconcile_completes:
  assumes "soa_match w \<in> set (cols df)" "\<not> startswith (soa_match w) ''Ref''"
  shows "\<exists>out. outcome (reconcile lib w df) = Completed out"
proof -
  let ?st = "\<lparr>df_result = df, match_sources_dict = initial_dict (astype_str (col_values df (soa_match w))),
              current_step = 0\<rparr>"
  obtain st' evs refs where r: "run_slots lib (soa_match w) (total_steps w df) 0 (ref_configs w) ?st = ((st', evs), refs)"
    by (metis prod.exhaust)
  have "soa_match w \<in> set (cols (df_result st'))"
    using run_slots_keeps_soa [OF r _ assms(2)] assms(1) by simp
  then obtain out where "finish (soa_match w) st' = Inr out" using finish_ok by blast
  then show ?thesis using assms(1) r
    by (simp add: reconcile_def getcol_def Let_def split: prod.splits)
qed

lemma age_step_cols:
  assumes "age_step lib today date_col df = Inr aged"
  shows "set (cols df) \<subseteq> set (cols aged)"
proof -
  have "\<And>t c vs. set (cols t) \<subseteq> set (cols (setcol t c vs))" by (auto simp: cols_setcol)
  moreover have "\<And>t vs. set (cols t) \<subseteq> set (cols (insert_first ''Age Bucket'' vs (drop_col ''Age Bucket'' t)))"
    by (auto simp: insert_first_def drop_col_def)
  ultimately show ?thesis
    using assms unfolding age_step_def Let_def
    by (auto split: option.splits simp del: set_append) (meson subsetD)+
qed

lemma run_cases:
  "run lib today w = reconcile lib w (soa_df w) \<or> outcome (run lib today w) = Aborted
   \<or> (\<exists>date_col aged. age_step lib today date_col (soa_df w) = Inr aged \<and> run lib today w = reconcile lib w aged)"
  by (auto simp: run_def split: option.splits sum.splits)

lemma run_completes:
  assumes "soa_match w \<in> set (cols (soa_df w))" "\<not> startswith (soa_match w) ''Ref''"
    and "outcome (run lib today w) \<noteq> Aborted"
  shows "\<exists>out. outcome (run lib today w) = Completed out"
  using run_cases [of lib today w] assms reconcile_completes age_step_cols
  by (metis subsetD)

lemma run_slots_failure:
  assumes "slot_body soa_col tsteps idx c st = (((st1, ref1), evs), Some e)"
  shows "run_slots lib soa_col tsteps idx (Some c # rest) st =
           (case run_slots lib soa_col tsteps (Suc idx) rest st1 of
              ((st2, evs'), rest') \<Rightarrow>
                ((st2, evs @ slot_failed lib idx e @ evs'), Some (c\<lparr>ref_df := ref1\<rparr>) # rest'))"
  using assms by (simp add: Let_def split: prod.splits)

lemma slot_body_missing_key:
  assumes "match_col c \<notin> set (cols (ref_df c))"
  shows "slot_body soa_col tsteps idx c st =
           (((st, ref_df c), [slot_started idx c]), Some (KeyError (match_col c)))"
  using assms by (simp add: slot_body_def getcol_def Let_def)

lemma run_slots_missing_key:
  assumes "match_col c \<notin> set (cols (ref_df c))"
  shows "\<exists>st' before after refs.
           run_slots lib soa_col tsteps idx (xs @ Some c # ys) st
             = ((st', before @ (slot_started (idx + length xs) c
                                # slot_failed lib (idx + length xs) (KeyError (match_col c))) @ after),
                refs[length xs := Some c])
         \<and> run_slots lib soa_col tsteps idx (xs @ None # ys) st = ((st', before @ after), refs)"
proof (induction xs arbitrary: idx st)
  case Nil
  obtain st' evs refs where r: "run_slots lib soa_col tsteps (Suc idx) ys st = ((st', evs), refs)"
    by (metis prod.exhaust)
  have a: "run_slots lib soa_col tsteps idx (Some c # ys) st =
            ((st', [slot_started idx c] @ slot_failed lib idx (KeyError (match_col c)) @ evs), Some c # refs)"
    using r by (simp add: slot_body_missing_key [OF assms])
  have b: "run_slots lib soa_col tsteps idx (None # ys) st = ((st', evs), None # refs)"
    using r by simp
  show ?case
    using a b by (intro exI [of _ st'] exI [of _ "[]"] exI [of _ evs] exI [of _ "None # refs"]) simp
next
  case (Cons x xs)
  show ?case
  proof (cases x)
    case None
    from Cons.IH [of "Suc idx" st] obtain st' before after refs where
      a: "run_slots lib soa_col tsteps (Suc idx) (xs @ Some c # ys) st
             = ((st', before @ (slot_started (Suc idx + length xs) c
                                # slot_failed lib (Suc idx + length xs) (KeyError (match_col c))) @ after),
                refs[length xs := Some c])"
      and b: "run_slots lib soa_col tsteps (Suc idx) (xs @ None # ys) st = ((st', before @ after), refs)"
      by blast
    show ?thesis
      using None a b by (intro exI [of _ st'] exI [of _ before] exI [of _ after] exI [of _ "None # refs"]) simp
  next
    case (Some d)
    obtain st1 ref1 evs1 err1 where sb: "slot_body soa_col tsteps idx d st = (((st1, ref1), evs1), err1)"
      by (metis prod.exhaust)
    let ?e1 = "evs1 @ (case err1 of None \<Rightarrow> [] | Some e \<Rightarrow> slot_failed lib idx e)"
    from Cons.IH [of "Suc idx" st1] obtain st' before after refs where
      a: "run_slots lib soa_col tsteps (Suc idx) (xs @ Some c # ys) st1
             = ((st', before @ (slot_started (Suc idx + length xs) c
                                # slot_failed lib (Suc idx + length xs) (KeyError (match_col c))) @ after),
                refs[length xs := Some c])"
      and b: "run_slots lib soa_col tsteps (Suc idx) (xs @ None # ys) st1 = ((st', before @ after), refs)"
      by blast
    show ?thesis
      using Some sb a b
      by (intro exI [of _ st'] exI [of _ "?e1 @ before"] exI [of _ after]
              exI [of _ "Some (d\<lparr>ref_df := ref1\<rparr>) # refs"]) (simp add: Let_def)
  qed
qed

section \<open>Running again on the slots a run left\<close>

lemma map2_list_update_twice:
  "map2 (\<lambda>r v. r[i := v]) (map2 (\<lambda>r v. r[i := v]) rs vs) vs = map2 (\<lambda>r v. r[i := v]) rs vs"
  by (induction rs arbitrary: vs) (auto simp: zip_Cons1 split: list.splits)

lemma setcol_twice:
  "c \<in> set (cols t) \<Longrightarrow> setcol (setcol t c vs) c vs = setcol t c vs"
  by (simp add: setcol_def map2_list_update_twice)

lemma map2_update_nth:
  assumes "length vs = length rs" "list_all (\<lambda>r. i < length r) rs"
  shows "map (\<lambda>r. r ! i) (map2 (\<lambda>r v. r[i := v]) rs vs) = vs"
  using assms
proof (induction rs arbitrary: vs)
  case Nil
  then show ?case by simp
next
  case (Cons r rs)
  then show ?case by (cases vs) auto
qed

lemma col_values_setcol:
  assumes "c \<in> set (cols t)" "length vs = length (rows t)"
    and "list_all (\<lambda>r. length r = length (cols t)) (rows t)"
  shows "col_values (setcol t c vs) c = vs"
proof -
  have "list_all (\<lambda>r. col_index (cols t) c < length r) (rows t)"
    using assms(1,3) col_index_less [of c "cols t"] by (auto simp: list_all_iff)
  from map2_update_nth [OF _ this, of vs] assms(2)
  have "map (\<lambda>r. r ! col_index (cols t) c) (map2 (\<lambda>r v. r[col_index (cols t) c := v]) (rows t) vs) = vs"
    by simp
  then show ?thesis
    using assms(1) by (simp add: col_values_def setcol_def)
qed

lemma astype_str_Str: "astype_str (map (\<lambda>s. Str (f s)) xs) = map f xs"
  by (simp add: astype_str_def comp_def)

lemma length_clean_column: "length (clean_column vs) = length vs"
  by (simp add: clean_column_def astype_str_def)

lemma clean_column_twice:
  assumes "list_all (\<lambda>s. \<not> startswith (strip s) [CHR 0x27]) (astype_str vs)"
  shows "clean_column (clean_column vs) = clean_column vs"
proof -
  have "clean_column (clean_column vs)
          = map (\<lambda>s. Str (clean_match_value (clean_match_value s))) (astype_str vs)"
    by (simp add: clean_column_def astype_str_Str)
  also have "\<dots> = map (\<lambda>s. Str (clean_match_value s)) (astype_str vs)"
    using assms cmv_idem_plain by (auto simp: list_all_iff)
  finally show ?thesis by (simp add: clean_column_def)
qed

section \<open>Runs on the example inputs\<close>

theorem repeated_label_on_repeated_key:
  "result_column (run no_dates 0 twice_billed) ''Ref1_Val'' = [Str ''a'', Str ''a'']
   \<and> result_column (run no_dates 0 twice_billed) ''Match Source''
       = [Str ''Ref1, Ref1'', Str ''Ref1, Ref1'']"
  by code_simp

text \<open>
  Claim C9. A run is a function of the statement, the slots and the clock, but it does
  not leave the slots as it found them: the statement frame is copied (line 374) and
  the reference frames are not, so that line 437 writes the normalised keys into the
  frames of the caller. A second run of the same worker starts from these frames, and
  normalising is not idempotent. With the statement key \<^verbatim>\<open>12\<close> and the reference key
  \<^verbatim>\<open>' 12\<close> (an apostrophe and a blank before the digits), the first run leaves the key
  \<^verbatim>\<open> 12\<close> in the reference frame and finds no match; the second run leaves \<^verbatim>\<open>12\<close> and
  finds one. The two runs of the same worker on the same day emit different tables.
\<close>

theorem second_run_differs:
  "outcome (run no_dates 0 quoted_key)
     = Completed \<lparr>cols = [''Inv'', ''Key'', ''Ref1_Val'', ''Match Source''],
                  rows = [[Str ''12'', NaN, NaN, Str []]]\<rparr>
   \<and> map (map_option (\<lambda>c. rows (ref_df c))) (refs_after (run no_dates 0 quoted_key))
       = [Some [[Str '' 12'', Str ''x'']], None, None, None]
   \<and> outcome (run_again no_dates 0 quoted_key)
       = Completed \<lparr>cols = [''Inv'', ''Key'', ''Ref1_Val'', ''Match Source''],
                    rows = [[Str ''12'', Str ''12'', Str ''x'', Str ''Ref1'']]\<rparr>"
  by code_simp

section \<open>Labels of the joined columns\<close>

lemma show_nat_nonempty: "show_nat n \<noteq> []"
  by (subst show_nat.simps) simp

lemma digit_char_code: "d < 10 \<Longrightarrow> (of_char (digit_char d) :: nat) = 48 + d"
proof -
  assume "d < 10"
  then have "(48 + d) mod 256 = 48 + d" by (intro mod_less) linarith
  then show ?thesis unfolding digit_char_def by (simp only: of_char_of)
qed

lemma digit_char_inj: "a < 10 \<Longrightarrow> b < 10 \<Longrightarrow> digit_char a = digit_char b \<Longrightarrow> a = b"
proof -
  assume a: "a < 10" "b < 10" "digit_char a = digit_char b"
  have "48 + a = (of_char (digit_char a) :: nat)" using a(1) by (simp only: digit_char_code)
  also have "\<dots> = of_char (digit_char b)" by (simp only: a(3))
  also have "\<dots> = 48 + b" using a(2) by (simp only: digit_char_code)
  finally show ?thesis by linarith
qed

lemma digit_char_not_underscore: "d < 10 \<Longrightarrow> digit_char d \<noteq> CHR ''_''"
proof
  assume a: "d < 10" "digit_char d = CHR ''_''"
  have "48 + d = (of_char (digit_char d) :: nat)" using a(1) by (simp only: digit_char_code)
  also have "\<dots> = of_char (CHR ''_'')" by (simp only: a(2))
  also have "\<dots> = 95" by simp
  finally show False using a(1) by linarith
qed

lemma show_nat_no_underscore: "CHR ''_'' \<notin> set (show_nat n)"
proof (induction n rule: show_nat.induct)
  case (1 n)
  show ?case
  proof (cases "n < 10")
    case True
    then show ?thesis using digit_char_not_underscore [of n]
      by (subst show_nat.simps) auto
  next
    case False
    have "n mod 10 < 10" by simp
    then have "digit_char (n mod 10) \<noteq> CHR ''_''" by (rule digit_char_not_underscore)
    then show ?thesis using False "1.IH"
      by (subst show_nat.simps) auto
  qed
qed

lemma show_nat_inj: "show_nat n = show_nat m \<Longrightarrow> n = m"
proof (induction n arbitrary: m rule: show_nat.induct)
  case (1 n)
  show ?case
  proof (cases "n < 10")
    case n: True
    show ?thesis
    proof (cases "m < 10")
      case True
      then show ?thesis using n "1.prems" digit_char_inj
        by (simp add: show_nat.simps [of n] show_nat.simps [of m])
    next
      case False
      then show ?thesis using n "1.prems" show_nat_nonempty [of "m div 10"]
        by (simp add: show_nat.simps [of n] show_nat.simps [of m])
    qed
  next
    case n: False
    show ?thesis
    proof (cases "m < 10")
      case True
      then show ?thesis using n "1.prems" show_nat_nonempty [of "n div 10"]
        by (simp add: show_nat.simps [of n] show_nat.simps [of m])
    next
      case False
      have e: "show_nat (n div 10) = show_nat (m div 10)" "digit_char (n mod 10) = digit_char (m mod 10)"
        using n False "1.prems" by (simp_all add: show_nat.simps [of n] show_nat.simps [of m])
      have "n div 10 = m div 10" using "1.IH" [OF n e(1)] .
      moreover have "n mod 10 = m mod 10" using digit_char_inj [OF _ _ e(2)] by simp
      ultimately show ?thesis by (metis div_mult_mod_eq)
    qed
  qed
qed

lemma prefix_up_to_mark:
  assumes "a \<notin> set xs" "a \<notin> set ys" "take (Suc (length ys)) (xs @ a # zs) = ys @ [a]"
  shows "xs = ys"
  using assms
proof (induction xs arbitrary: ys)
  case Nil
  then show ?case by (cases ys) auto
next
  case (Cons x xs)
  show ?case
  proof (cases ys)
    case Nil
    then show ?thesis using Cons.prems by auto
  next
    case (Cons y ys')
    then show ?thesis using Cons.prems Cons.IH [of ys'] by auto
  qed
qed

lemma ref_label_prefix:
  assumes "startswith (ref_label j @ ''_'' @ x) (ref_label i @ ''_'')"
  shows "i = j"
proof -
  have "take (Suc (length (show_nat (i + 1)))) (show_nat (j + 1) @ CHR ''_'' # x) = show_nat (i + 1) @ [CHR ''_'']"
    using assms by (simp add: startswith_def ref_label_def)
  then have "show_nat (j + 1) = show_nat (i + 1)"
    using prefix_up_to_mark [OF show_nat_no_underscore show_nat_no_underscore] by blast
  then show ?thesis using show_nat_inj by fastforce
qed

lemma startswith_longer: "startswith l p \<Longrightarrow> startswith (l @ s) p"
proof -
  assume "startswith l p"
  then have a: "take (length p) l = p" by (simp add: startswith_def)
  have "length (take (length p) l) = min (length l) (length p)" by simp
  then have "length p \<le> length l" unfolding a by linarith
  then show ?thesis using a by (simp add: startswith_def)
qed

lemma plain_suffix:
  assumes "\<not> startswith l ''Ref''" "hd s = CHR ''_''" "s \<noteq> []"
  shows "\<not> startswith (l @ s) ''Ref''"
proof
  assume a: "startswith (l @ s) ''Ref''"
  obtain t where s: "s = CHR ''_'' # t" using assms(2,3) by (cases s) auto
  consider "length l = 0" | "length l = 1" | "length l = 2" | "3 \<le> length l" by linarith
  then show False
  proof cases
    case 1
    then show ?thesis using a s by (simp add: startswith_def)
  next
    case 2
    then obtain a1 where "l = [a1]" by (cases l) auto
    then show ?thesis using a s by (simp add: startswith_def)
  next
    case 3
    then obtain a1 a2 where "l = [a1, a2]" by (cases l; cases "tl l") auto
    then show ?thesis using a s by (simp add: startswith_def)
  next
    case 4
    then show ?thesis using a assms(1) by (simp add: startswith_def)
  qed
qed

lemma old_label_Suc: "old_label i l \<Longrightarrow> old_label (Suc i) l"
  by (auto simp: old_label_def list_ex_iff)

lemma old_label_plain: "\<not> startswith l ''Ref'' \<Longrightarrow> old_label i l"
  by (simp add: old_label_def)

lemma ref_label_startswith: "startswith (ref_label j @ s) ''Ref''"
  by (simp add: ref_label_def startswith_def)

lemma old_label_not_new:
  assumes "old_label i l"
  shows "l \<noteq> ref_col_name i x"
proof
  assume e: "l = ref_col_name i x"
  have "startswith l ''Ref''" unfolding e by (rule startswith_ref_col_name)
  then obtain j where j: "j < i" "startswith l (ref_label j @ ''_'')"
    using assms by (auto simp: old_label_def list_ex_iff)
  have "startswith (ref_label i @ ''_'' @ x) (ref_label j @ ''_'')"
    using j(2) by (simp add: e ref_col_name_def)
  then have "j = i" by (rule ref_label_prefix)
  then show False using j(1) by simp
qed

lemma old_label_suffix:
  assumes "old_label i l" "hd s = CHR ''_''" "s \<noteq> []"
  shows "old_label i (l @ s)"
proof (cases "startswith l ''Ref''")
  case False
  then show ?thesis using plain_suffix [OF False assms(2,3)] by (simp add: old_label_def)
next
  case True
  then obtain j where j: "j < i" "startswith l (ref_label j @ ''_'')"
    using assms(1) by (auto simp: old_label_def list_ex_iff)
  have "startswith (l @ s) (ref_label j @ ''_'')" using j(2) by (rule startswith_longer)
  then show ?thesis using j(1) by (auto simp: old_label_def list_ex_iff intro!: bexI [of _ j])
qed

lemma old_label_new: "old_label (Suc i) (ref_col_name i x)"
proof -
  have "startswith (ref_col_name i x) (ref_label i @ ''_'')"
    by (simp add: ref_col_name_def startswith_def)
  then show ?thesis by (auto simp: old_label_def list_ex_iff)
qed

lemma col_index_eqI:
  "i < length cs \<Longrightarrow> cs ! i = c \<Longrightarrow> c \<notin> set (take i cs) \<Longrightarrow> col_index cs c = i"
proof (induction cs arbitrary: i)
  case Nil
  then show ?case by simp
next
  case (Cons d cs)
  show ?case
  proof (cases i)
    case 0
    then show ?thesis using Cons.prems by (simp add: col_index_Cons)
  next
    case (Suc k)
    then show ?thesis using Cons.prems Cons.IH [of k] by (auto simp: col_index_Cons)
  qed
qed

lemma col_index_first: "c \<in> set cs \<Longrightarrow> c \<notin> set (take (col_index cs c) cs)"
  by (induction cs) (auto simp: col_index_Cons)

lemma length_suffixed: "length (suffixed tr cs sfx) = length cs"
  by (simp add: suffixed_def)

lemma no_suffix_dups_nth:
  assumes "\<not> suffix_dups old new" "length new = length old" "p < length old"
    and "new ! p \<in> set (take p new)"
  shows "old ! p \<in> set (take p old)"
proof (rule ccontr)
  assume n: "old ! p \<notin> set (take p old)"
  have "(duplicated old ! p, duplicated new ! p) \<in> set (zip (duplicated old) (duplicated new))"
    using assms(2,3) by (auto simp: set_zip duplicated_def intro!: exI [of _ p])
  moreover have "duplicated new ! p" "\<not> duplicated old ! p"
    using assms(2,3,4) n by (simp_all add: duplicated_def)
  ultimately have "suffix_dups old new"
    unfolding suffix_dups_def list_ex_iff by force
  then show False using assms(1) by simp
qed

lemma filter_unique:
  "distinct (map f xs) \<Longrightarrow>
   filter (\<lambda>x. f x = a) xs = (case find (\<lambda>x. f x = a) xs of None \<Rightarrow> [] | Some x \<Rightarrow> [x])"
proof (induction xs)
  case Nil
  then show ?case by simp
next
  case (Cons x xs)
  show ?case
  proof (cases "f x = a")
    case True
    have "f y \<noteq> a" if "y \<in> set xs" for y
      using Cons.prems True that by (metis distinct.simps(2) imageI list.simps(9) set_map)
    then have "filter (\<lambda>x. f x = a) xs = []"
      by (simp add: filter_empty_conv)
    then show ?thesis using True by simp
  next
    case False
    then show ?thesis using Cons by simp
  qed
qed

lemma concat_singletons: "concat (map (\<lambda>x. [f x]) xs) = map f xs"
  by (induction xs) simp_all

section \<open>A join without fan-out\<close>

lemma select_cols_Inr:
  assumes "select_cols t cs = Inr s"
  shows "s = \<lparr>cols = cs, rows = map (\<lambda>r. map (\<lambda>c. r ! col_index (cols t) c) cs) (rows t)\<rparr>"
    and "set cs \<subseteq> set (cols t)"
proof -
  have e: "filter (\<lambda>c. c \<notin> set (cols t)) cs = []"
    using assms by (auto simp: select_cols_def split: list.splits)
  then show "s = \<lparr>cols = cs, rows = map (\<lambda>r. map (\<lambda>c. r ! col_index (cols t) c) cs) (rows t)\<rparr>"
    using assms by (simp add: select_cols_def)
  show "set cs \<subseteq> set (cols t)"
    using e by (auto simp: filter_empty_conv)
qed

lemma ref_names_not_plain:
  "\<not> startswith m ''Ref'' \<Longrightarrow> m \<notin> set (map (ref_col_name idx) rcs)"
  using startswith_ref_col_name by auto

lemma dropped_key:
  assumes pm: "\<not> startswith m ''Ref''"
  shows "drop_col m \<lparr>cols = m # map (ref_col_name idx) rcs,
                     rows = map (\<lambda>r. r ! mi # map (\<lambda>c. r ! col_index cs c) rcs) rs\<rparr>
       = \<lparr>cols = map (ref_col_name idx) rcs, rows = map (\<lambda>r. map (\<lambda>c. r ! col_index cs c) rcs) rs\<rparr>"
proof -
  have n: "m \<notin> set (map (ref_col_name idx) rcs)" using pm by (rule ref_names_not_plain)
  have a: "filter (\<lambda>x. x \<noteq> m) (map (ref_col_name idx) rcs) = map (ref_col_name idx) rcs"
    using n by (rule filter_labels_id)
  have b: "map snd (filter (\<lambda>(x, v). x \<noteq> m) (zip (map (ref_col_name idx) rcs) (map (\<lambda>c. r ! col_index cs c) rcs)))
             = map (\<lambda>c. r ! col_index cs c) rcs" for r
    using n by (intro filter_zip_id) simp_all
  show ?thesis
    unfolding drop_col_def by (simp add: a b del: set_map)
qed


lemma join_slot_unique:
  assumes j: "join_slot soa_col idx c ref df = Inr merged"
    and pm: "\<not> startswith (match_col c) ''Ref''"
    and old: "list_all (old_label idx) (cols df)"
    and dk: "distinct (col_values ref (match_col c))"
  shows "\<exists>tr. set tr \<subseteq> {match_col c} \<and> soa_col \<notin> set tr
           \<and> \<not> suffix_dups (cols df) (suffixed tr (cols df) ''_x'')
           \<and> cols merged = suffixed tr (cols df) ''_x''
                 @ suffixed tr (if soa_col = match_col c then [] else [match_col c]) ''_y''
                 @ map (ref_col_name idx) (return_cols c)
           \<and> rows merged =
               map (\<lambda>l. l @ (case find (\<lambda>r. r ! col_index (cols ref) (match_col c)
                                             = l ! col_index (cols df) soa_col) (rows ref) of
                               None \<Rightarrow> replicate (length (if soa_col = match_col c then [] else [match_col c])
                                           + length (return_cols c)) NaN
                             | Some r \<Rightarrow> (if soa_col = match_col c then []
                                          else [r ! col_index (cols ref) (match_col c)])
                                         @ map (\<lambda>c. r ! col_index (cols ref) c) (return_cols c)))
                   (rows df)"
    and "soa_col \<in> set (cols df)"
    and "set (return_cols c) \<subseteq> set (cols ref)"
proof -
  let ?m = "match_col c" and ?rcs = "return_cols c"
  let ?mi = "col_index (cols ref) ?m" and ?si = "col_index (cols df) soa_col"
  let ?names = "map (ref_col_name idx) ?rcs"
  let ?cells = "\<lambda>r. map (\<lambda>c. r ! col_index (cols ref) c) ?rcs"
  let ?pre = "if soa_col = ?m then [] else [?m]"
  let ?prer = "\<lambda>r. if soa_col = ?m then [] else [r ! ?mi]"
  let ?E = "\<lparr>cols = ?m # ?names, rows = map (\<lambda>r. r ! ?mi # ?cells r) (rows ref)\<rparr>"
  let ?R = "\<lparr>cols = ?pre @ ?names, rows = map (\<lambda>r. ?prer r @ ?cells r) (rows ref)\<rparr>"
  from j obtain selected where sel: "select_cols ref (?m # ?rcs) = Inr selected"
    and m: "merge_left df (selected\<lparr>cols := ?m # ?names\<rparr>) soa_col ?m = Inr merged"
    by (auto simp: join_slot_def Let_def split: sum.splits)
  have E: "selected\<lparr>cols := ?m # ?names\<rparr> = ?E"
    using select_cols_Inr(1) [OF sel] by simp
  show sub: "set ?rcs \<subseteq> set (cols ref)"
    using select_cols_Inr(2) [OF sel] by simp
  have R: "(if soa_col = ?m then drop_col ?m ?E else ?E) = ?R"
    using dropped_key [OF pm, of idx ?rcs ?mi "cols ref" "rows ref"] by simp
  let ?tr = "filter (\<lambda>c. c \<in> set (cols ?R)) (cols df)"
  have nn: "l \<notin> set ?names" if "l \<in> set (cols df)" for l
    using old that old_label_not_new [of idx l] by (auto simp: list_all_iff)
  have tr: "set ?tr \<subseteq> {?m}" "soa_col \<notin> set ?tr"
    using nn by auto
  have trn: "suffixed ?tr ?names ''_y'' = ?names"
    using nn by (auto simp: suffixed_def)
  have ri: "col_index (cols ?E) ?m = 0" by (simp add: col_index_Cons)
  show soa: "soa_col \<in> set (cols df)"
    using m by (auto simp: merge_left_def Let_def split: if_splits)
  have nd: "\<not> suffix_dups (cols df) (suffixed ?tr (cols df) ''_x'')"
    using m unfolding merge_left_def E Let_def R by (auto split: if_splits)
  have merged: "merged = \<lparr>cols = suffixed ?tr (cols df) ''_x'' @ suffixed ?tr (cols ?R) ''_y'',
       rows = concat (map (\<lambda>l.
                 let ms = filter (\<lambda>(r, r'). r ! 0 = l ! ?si) (zip (rows ?E) (rows ?R))
                 in if ms = [] then [l @ replicate (length (suffixed ?tr (cols ?R) ''_y'')) NaN]
                    else map (\<lambda>(r, r'). l @ r') ms) (rows df))\<rparr>"
    using m unfolding merge_left_def E Let_def R ri by (auto split: if_splits)
  have cols: "cols merged = suffixed ?tr (cols df) ''_x'' @ suffixed ?tr ?pre ''_y'' @ ?names"
    using trn by (simp add: merged suffixed_def)
  have z: "zip (rows ?E) (rows ?R) = map (\<lambda>r. (r ! ?mi # ?cells r, ?prer r @ ?cells r)) (rows ref)"
    by (simp add: zip_map_map zip_same_conv_map)
  have dist: "distinct (map (\<lambda>r. r ! ?mi) (rows ref))"
    using dk by (simp add: col_values_def)
  have f: "filter (\<lambda>(r, r'). r ! 0 = k) (zip (rows ?E) (rows ?R))
            = (case find (\<lambda>r. r ! ?mi = k) (rows ref) of
                 None \<Rightarrow> [] | Some r \<Rightarrow> [(r ! ?mi # ?cells r, ?prer r @ ?cells r)])" for k
  proof -
    have "filter (\<lambda>(r, r'). r ! 0 = k) (zip (rows ?E) (rows ?R))
            = map (\<lambda>r. (r ! ?mi # ?cells r, ?prer r @ ?cells r)) (filter (\<lambda>r. r ! ?mi = k) (rows ref))"
      unfolding z by (simp add: filter_map comp_def)
    also have "filter (\<lambda>r. r ! ?mi = k) (rows ref)
                 = (case find (\<lambda>r. r ! ?mi = k) (rows ref) of None \<Rightarrow> [] | Some r \<Rightarrow> [r])"
      using filter_unique [OF dist] .
    finally show ?thesis by (simp split: option.splits)
  qed
  have len: "length (suffixed ?tr (cols ?R) ''_y'') = length ?pre + length ?rcs"
    by (simp add: length_suffixed)
  have g: "(let ms = filter (\<lambda>(r, r'). r ! 0 = l ! ?si) (zip (rows ?E) (rows ?R))
                 in if ms = [] then [l @ replicate (length (suffixed ?tr (cols ?R) ''_y'')) NaN]
                    else map (\<lambda>(r, r'). l @ r') ms)
           = [l @ (case find (\<lambda>r. r ! ?mi = l ! ?si) (rows ref) of
                               None \<Rightarrow> replicate (length ?pre + length ?rcs) NaN
                             | Some r \<Rightarrow> ?prer r @ ?cells r)]" for l
    unfolding f len Let_def
    by (cases "find (\<lambda>r. r ! ?mi = l ! ?si) (rows ref)") simp_all
  have "rows merged = concat (map (\<lambda>l.
                 let ms = filter (\<lambda>(r, r'). r ! 0 = l ! ?si) (zip (rows ?E) (rows ?R))
                 in if ms = [] then [l @ replicate (length (suffixed ?tr (cols ?R) ''_y'')) NaN]
                    else map (\<lambda>(r, r'). l @ r') ms) (rows df))"
    by (simp only: merged table.select_convs)
  then have "rows merged =
      concat (map (\<lambda>l. [l @ (case find (\<lambda>r. r ! ?mi = l ! ?si) (rows ref) of
                               None \<Rightarrow> replicate (length ?pre + length ?rcs) NaN
                             | Some r \<Rightarrow> ?prer r @ ?cells r)]) (rows df))"
    by (simp only: g)
  then have rows: "rows merged =
      map (\<lambda>l. l @ (case find (\<lambda>r. r ! ?mi = l ! ?si) (rows ref) of
                               None \<Rightarrow> replicate (length ?pre + length ?rcs) NaN
                             | Some r \<Rightarrow> ?prer r @ ?cells r)) (rows df)"
    by (simp only: concat_singletons)
  show "\<exists>tr. set tr \<subseteq> {match_col c} \<and> soa_col \<notin> set tr
           \<and> \<not> suffix_dups (cols df) (suffixed tr (cols df) ''_x'')
           \<and> cols merged = suffixed tr (cols df) ''_x''
                 @ suffixed tr (if soa_col = match_col c then [] else [match_col c]) ''_y''
                 @ map (ref_col_name idx) (return_cols c)
           \<and> rows merged =
               map (\<lambda>l. l @ (case find (\<lambda>r. r ! col_index (cols ref) (match_col c)
                                             = l ! col_index (cols df) soa_col) (rows ref) of
                               None \<Rightarrow> replicate (length (if soa_col = match_col c then [] else [match_col c])
                                           + length (return_cols c)) NaN
                             | Some r \<Rightarrow> (if soa_col = match_col c then []
                                          else [r ! col_index (cols ref) (match_col c)])
                                         @ map (\<lambda>c. r ! col_index (cols ref) c) (return_cols c)))
                   (rows df)"
    using tr nd cols rows by (intro exI [of _ ?tr]) (simp only: simp_thms)
qed

lemma suffixed_nth:
  "i < length cs \<Longrightarrow> suffixed tr cs sfx ! i = (if cs ! i \<in> set tr then cs ! i @ sfx else cs ! i)"
  by (simp add: suffixed_def)

lemma suffixed_old:
  assumes "list_all (old_label i) cs" "hd sfx = CHR ''_''" "sfx \<noteq> []"
  shows "list_all (old_label i) (suffixed tr cs sfx)"
  using assms old_label_suffix by (auto simp: suffixed_def list_all_iff)

lemma join_slot_frame:
  assumes j: "join_slot soa_col idx c ref df = Inr merged"
    and pm: "\<not> startswith (match_col c) ''Ref''"
    and old: "list_all (old_label idx) (cols df)"
    and dk: "distinct (col_values ref (match_col c))"
    and rect: "list_all (\<lambda>r. length r = length (cols df)) (rows df)"
    and rcs: "return_cols c = first # others"
  shows "list_all (\<lambda>r. length r = length (cols merged)) (rows merged)"
    and "soa_col \<in> set (cols merged)"
    and "list_all (old_label (Suc idx)) (cols merged)"
    and "col_values merged soa_col = col_values df soa_col"
    and "getcol merged (ref_col_name idx first)
           = Inr (map (\<lambda>l. case find (\<lambda>r. r ! col_index (cols ref) (match_col c)
                                           = l ! col_index (cols df) soa_col) (rows ref) of
                               None \<Rightarrow> NaN
                             | Some r \<Rightarrow> r ! col_index (cols ref) first) (rows df))"
proof -
  let ?m = "match_col c"
  let ?mi = "col_index (cols ref) ?m" and ?si = "col_index (cols df) soa_col"
  let ?names = "map (ref_col_name idx) (return_cols c)"
  let ?cells = "\<lambda>r. map (\<lambda>c. r ! col_index (cols ref) c) (return_cols c)"
  let ?pre = "if soa_col = ?m then [] else [?m]"
  let ?prer = "\<lambda>r. if soa_col = ?m then [] else [r ! ?mi]"
  define ext where "ext = (\<lambda>l. case find (\<lambda>r. r ! ?mi = l ! ?si) (rows ref) of
                               None \<Rightarrow> replicate (length ?pre + length (return_cols c)) NaN
                             | Some r \<Rightarrow> ?prer r @ ?cells r)"
  from join_slot_unique(1) [OF j pm old dk] obtain tr where
    tr: "set tr \<subseteq> {?m}" "soa_col \<notin> set tr"
    and nd: "\<not> suffix_dups (cols df) (suffixed tr (cols df) ''_x'')"
    and cm: "cols merged = suffixed tr (cols df) ''_x'' @ suffixed tr ?pre ''_y'' @ ?names"
    and rm: "rows merged = map (\<lambda>l. l @ ext l) (rows df)"
    unfolding ext_def by blast
  have soa: "soa_col \<in> set (cols df)" using join_slot_unique(2) [OF j pm old dk] .
  let ?L = "suffixed tr (cols df) ''_x''" and ?P = "suffixed tr ?pre ''_y''"
  have lenL: "length ?L = length (cols df)" and lenP: "length ?P = length ?pre"
    by (simp_all add: length_suffixed)
  have si: "?si < length (cols df)" using soa by (rule col_index_less)
  have len: "length l = length (cols df)" if "l \<in> set (rows df)" for l
    using rect that by (simp add: list_all_iff)
  have lext: "length (ext l) = length ?pre + length (return_cols c)" for l
    unfolding ext_def by (cases "find (\<lambda>r. r ! ?mi = l ! ?si) (rows ref)") simp_all
  show "list_all (\<lambda>r. length r = length (cols merged)) (rows merged)"
    using len lext by (simp add: rm cm list_all_iff lenL lenP)
  have Lsi: "?L ! ?si = soa_col"
    using si tr(2) soa by (simp add: suffixed_nth col_index_nth)
  have "soa_col \<notin> set (take ?si ?L)"
  proof
    assume "soa_col \<in> set (take ?si ?L)"
    then have "?L ! ?si \<in> set (take ?si ?L)" by (simp add: Lsi)
    from no_suffix_dups_nth [OF nd lenL si this]
    have "soa_col \<in> set (take ?si (cols df))" using soa by (simp add: col_index_nth)
    then show False using col_index_first [OF soa] by simp
  qed
  then have ciL: "col_index ?L soa_col = ?si"
    using si Lsi by (intro col_index_eqI) (simp_all add: lenL)
  have inL: "soa_col \<in> set ?L" using Lsi si lenL by (metis nth_mem)
  show "soa_col \<in> set (cols merged)" using inL by (simp add: cm)
  have ci: "col_index (cols merged) soa_col = ?si"
    using inL ciL by (simp add: cm col_index_append_in)
  have plainP: "\<not> startswith l ''Ref''" if "l \<in> set ?P" for l
    using that pm plain_suffix [OF pm, of "''_y''"] by (auto simp: suffixed_def split: if_splits)
  have oldL: "list_all (old_label idx) ?L"
    using old by (intro suffixed_old) simp_all
  show "list_all (old_label (Suc idx)) (cols merged)"
    using oldL plainP old_label_Suc old_label_plain old_label_new
    by (auto simp: cm list_all_iff)
  show "col_values merged soa_col = col_values df soa_col"
    unfolding col_values_def ci using len si by (simp add: rm nth_append)
  let ?N = "ref_col_name idx first"
  have nL: "?N \<notin> set ?L"
    using oldL old_label_not_new [of idx ?N first] by (auto simp: list_all_iff)
  have nP: "?N \<notin> set ?P"
    using plainP startswith_ref_col_name by blast
  have ciN: "col_index (cols merged) ?N = length (cols df) + length ?pre"
    using nL nP by (simp add: cm col_index_append_out rcs col_index_Cons lenL lenP)
  have inN: "?N \<in> set (cols merged)" by (simp add: cm rcs)
  have cell: "(l @ ext l) ! (length (cols df) + length ?pre)
                = (case find (\<lambda>r. r ! ?mi = l ! ?si) (rows ref) of
                     None \<Rightarrow> NaN | Some r \<Rightarrow> r ! col_index (cols ref) first)"
    if "l \<in> set (rows df)" for l
  proof -
    have "(l @ ext l) ! (length (cols df) + length ?pre) = ext l ! length ?pre"
      using len [OF that] by (simp add: nth_append)
    also have "\<dots> = (case find (\<lambda>r. r ! ?mi = l ! ?si) (rows ref) of
                     None \<Rightarrow> NaN | Some r \<Rightarrow> r ! col_index (cols ref) first)"
      unfolding ext_def
      by (cases "find (\<lambda>r. r ! ?mi = l ! ?si) (rows ref)") (simp_all add: rcs nth_append)
    finally show ?thesis .
  qed
  show "getcol merged ?N
           = Inr (map (\<lambda>l. case find (\<lambda>r. r ! ?mi = l ! ?si) (rows ref) of
                               None \<Rightarrow> NaN
                             | Some r \<Rightarrow> r ! col_index (cols ref) first) (rows df))"
    using inN cell by (simp add: getcol_def col_values_def ciN rm)
qed

section \<open>One slot on a statement with unique keys\<close>

lemma length_map2_update: "length vs = length rs \<Longrightarrow> length (map2 (\<lambda>r v. r[i := v]) rs vs) = length rs"
  by simp

lemma rect_setcol:
  assumes "list_all (\<lambda>r. length r = length (cols t)) (rows t)" "c \<in> set (cols t)"
  shows "list_all (\<lambda>r. length r = length (cols (setcol t c vs))) (rows (setcol t c vs))"
  using assms by (auto simp: setcol_def list_all_iff dest!: set_zip_leftD)

lemma rows_setcol_length:
  "length vs = length (rows t) \<Longrightarrow> length (rows (setcol t c vs)) = length (rows t)"
  by (simp add: setcol_def)

lemma list_ex_unique:
  "distinct (map f xs) \<Longrightarrow>
   list_ex (\<lambda>x. f x = a \<and> Q x) xs = (case find (\<lambda>x. f x = a) xs of None \<Rightarrow> False | Some x \<Rightarrow> Q x)"
proof (induction xs)
  case Nil
  then show ?case by simp
next
  case (Cons x xs)
  show ?case
  proof (cases "f x = a")
    case True
    have "f y \<noteq> a" if "y \<in> set xs" for y
      using Cons.prems True that by (metis distinct.simps(2) imageI list.simps(9) set_map)
    then have "\<not> list_ex (\<lambda>x. f x = a \<and> Q x) xs" by (auto simp: list_ex_iff)
    then show ?thesis using True by simp
  next
    case False
    then show ?thesis using Cons by simp
  qed
qed

lemma count_unique:
  "distinct ks \<Longrightarrow> length (filter (\<lambda>k'. k' = k \<and> Q) ks) = (if k \<in> set ks \<and> Q then 1 else 0)"
  by (induction ks) auto

lemma astype_str_Str_id: "astype_str (map Str ks) = ks"
  using astype_str_Str [of "\<lambda>s. s" ks] by simp

lemma clean_column_keys:
  assumes "list_all (\<lambda>k. clean_match_value k = k) ks"
  shows "clean_column (map Str ks) = map Str ks"
  using assms by (simp add: clean_column_def astype_str_Str_id list_all_iff)

lemma length_clean_column_eq: "clean_column vs = map Str ks \<Longrightarrow> length ks = length vs"
  by (metis length_clean_column length_map)

lemma hits_unique:
  assumes dks: "distinct ks"
    and fixed: "list_all (\<lambda>k. clean_match_value k = k) ks"
    and cv: "map (\<lambda>row. row ! ci) rws = map Str ks"
  shows "length (filter (\<lambda>(m, row). m \<and> clean_match_value (py_str (row ! ci)) = k)
                   (zip (map (\<lambda>k'. notna (G (Str k'))) ks) rws))
           = (if k \<in> set ks \<and> notna (G (Str k)) then 1 else 0)"
proof -
  have len: "length rws = length ks" using cv by (metis length_map)
  have z: "zip (map (\<lambda>k'. notna (G (Str k'))) ks) rws
             = map (\<lambda>(k', row). (notna (G (Str k')), row)) (zip ks rws)"
    by (simp add: zip_map1)
  have el: "row ! ci = Str k'" if "(k', row) \<in> set (zip ks rws)" for k' row
  proof -
    from that obtain j where j: "j < length ks" "j < length rws" "k' = ks ! j" "row = rws ! j"
      by (auto simp: set_zip)
    have "map (\<lambda>row. row ! ci) rws ! j = map Str ks ! j" by (simp only: cv)
    then show ?thesis using j by simp
  qed
  have fx: "clean_match_value k' = k'" if "(k', row) \<in> set (zip ks rws)" for k' row
    using that fixed by (auto simp: list_all_iff dest: set_zip_leftD)
  have "filter (\<lambda>(m, row). m \<and> clean_match_value (py_str (row ! ci)) = k)
           (zip (map (\<lambda>k'. notna (G (Str k'))) ks) rws)
        = map (\<lambda>(k', row). (notna (G (Str k')), row))
            (filter (\<lambda>(k', row). notna (G (Str k')) \<and> clean_match_value (py_str (row ! ci)) = k) (zip ks rws))"
    unfolding z by (simp add: filter_map comp_def case_prod_unfold)
  also have "filter (\<lambda>(k', row). notna (G (Str k')) \<and> clean_match_value (py_str (row ! ci)) = k) (zip ks rws)
        = filter (\<lambda>(k', row). k' = k \<and> notna (G (Str k))) (zip ks rws)"
    using el fx by (intro filter_cong) (auto simp: py_str_def)
  finally have "length (filter (\<lambda>(m, row). m \<and> clean_match_value (py_str (row ! ci)) = k)
                   (zip (map (\<lambda>k'. notna (G (Str k'))) ks) rws))
        = length (filter (\<lambda>(k', row). k' = k \<and> notna (G (Str k))) (zip ks rws))"
    by simp
  also have "\<dots> = length (filter (\<lambda>k'. k' = k \<and> notna (G (Str k))) (map fst (zip ks rws)))"
    by (simp add: filter_map comp_def case_prod_unfold)
  also have "map fst (zip ks rws) = ks" using len by simp
  finally show ?thesis using count_unique [OF dks] by simp
qed

lemma plain_separator: "\<not> startswith (''Separator'' @ s) ''Ref''"
  by (simp add: startswith_def)

lemma insert_last_frame:
  assumes i: "insert_last s t = Inr t'"
    and rect: "list_all (\<lambda>r. length r = length (cols t)) (rows t)"
    and c: "c \<in> set (cols t)"
  shows "list_all (\<lambda>r. length r = length (cols t')) (rows t')"
    and "cols t' = cols t @ [s]"
    and "col_values t' c = col_values t c"
proof -
  have t': "t' = \<lparr>cols = cols t @ [s], rows = map (\<lambda>r. r @ [Str []]) (rows t)\<rparr>"
    using i by (auto simp: insert_last_def split: if_splits)
  show "list_all (\<lambda>r. length r = length (cols t')) (rows t')"
    using rect by (simp add: t' list_all_iff)
  show "cols t' = cols t @ [s]" by (simp add: t')
  have "col_index (cols t) c < length r" if "r \<in> set (rows t)" for r
    using rect c that col_index_less [of c "cols t"] by (simp add: list_all_iff)
  then show "col_values t' c = col_values t c"
    using c by (simp add: t' col_values_def col_index_append_in nth_append)
qed

lemma notna_find:
  "notna (case find P xs of None \<Rightarrow> NaN | Some r \<Rightarrow> f r)
     = (case find P xs of None \<Rightarrow> False | Some r \<Rightarrow> notna (f r))"
  by (cases "find P xs") (simp_all add: notna_def)

lemma mark_matches_ok:
  assumes mm: "mark_matches soa_col tsteps idx c st = ((st1, evs), None)"
  shows "\<exists>first others mcol st2 evs2.
            return_cols c = first # others
          \<and> getcol (df_result st) (ref_col_name idx first) = Inr mcol
          \<and> match_rows (ref_label idx) soa_col tsteps (cols (df_result st))
                (zip (map notna mcol) (rows (df_result st))) st = ((st2, evs2), None)
          \<and> (st1 = st2 \<or> (\<exists>df. insert_last (''Separator'' @ show_nat (idx + 1)) (df_result st2) = Inr df
                               \<and> st1 = st2\<lparr>df_result := df\<rparr>))"
proof (cases "return_cols c")
  case Nil
  then show ?thesis using mm by (simp add: mark_matches_def)
next
  case (Cons first others)
  show ?thesis
  proof (cases "getcol (df_result st) (ref_col_name idx first)")
    case (Inl e)
    then show ?thesis using mm Cons by (simp add: mark_matches_def)
  next
    case (Inr mcol)
    obtain st2 evs2 err2 where r: "match_rows (ref_label idx) soa_col tsteps (cols (df_result st))
                (zip (map notna mcol) (rows (df_result st))) st = ((st2, evs2), err2)"
      by (metis prod.exhaust)
    have e: "err2 = None"
      using mm Cons Inr r by (cases err2) (simp_all add: mark_matches_def)
    have "st1 = st2 \<or> (\<exists>df. insert_last (''Separator'' @ show_nat (idx + 1)) (df_result st2) = Inr df
                               \<and> st1 = st2\<lparr>df_result := df\<rparr>)"
      using mm Cons Inr r e
      by (auto simp: mark_matches_def split: if_splits sum.splits)
    then show ?thesis using Cons Inr r e by blast
  qed
qed

lemma slot_rest_ok:
  assumes r: "slot_rest soa_col tsteps idx c ref st = ((st1, evs), None)"
  shows "\<exists>merged.
           soa_col \<in> set (cols (df_result st))
         \<and> join_slot soa_col idx c ref
               (setcol (df_result st) soa_col (clean_column (col_values (df_result st) soa_col))) = Inr merged
         \<and> mark_matches soa_col tsteps idx c (st\<lparr>df_result := merged\<rparr>) = ((st1, evs), None)"
proof (cases "soa_col \<in> set (cols (df_result st))")
  case False
  then show ?thesis using r by (simp add: slot_rest_def getcol_def)
next
  case True
  let ?df1 = "setcol (df_result st) soa_col (clean_column (col_values (df_result st) soa_col))"
  show ?thesis
  proof (cases "join_slot soa_col idx c ref ?df1")
    case (Inl e)
    then show ?thesis using r True by (simp add: slot_rest_def getcol_def Let_def)
  next
    case (Inr merged)
    then show ?thesis using r True by (simp add: slot_rest_def getcol_def Let_def)
  qed
qed

lemma slot_body_ok:
  assumes b: "slot_body soa_col tsteps idx c st = (((st1, ref1), evs), None)"
  shows "match_col c \<in> set (cols (ref_df c))"
    and "\<exists>evs'. slot_rest soa_col tsteps idx c
            (setcol (ref_df c) (match_col c) (clean_column (col_values (ref_df c) (match_col c)))) st
          = ((st1, evs'), None)"
proof -
  show m: "match_col c \<in> set (cols (ref_df c))"
    using b slot_body_missing_key [of c soa_col tsteps idx st] by auto
  let ?ref1 = "setcol (ref_df c) (match_col c) (clean_column (col_values (ref_df c) (match_col c)))"
  obtain st2 evs2 err2 where r: "slot_rest soa_col tsteps idx c ?ref1 st = ((st2, evs2), err2)"
    by (metis prod.exhaust)
  have "st1 = st2" "err2 = None"
    using b m r by (simp_all add: slot_body_def getcol_def Let_def)
  then show "\<exists>evs'. slot_rest soa_col tsteps idx c ?ref1 st = ((st1, evs'), None)"
    using r by blast
qed

lemma slot_body_unique:
  assumes inv: "matched_so_far soa_col ks i L st"
    and ok: "slot_body soa_col tsteps i c st = (((st1, ref1), evs), None)"
    and good: "joinable c"
    and dks: "distinct ks"
    and fixed: "list_all (\<lambda>k. clean_match_value k = k) ks"
    and t: "0 < tsteps"
  shows "matched_so_far soa_col ks (Suc i)
           (\<lambda>k. L k @ (if spec_slot_matches c k then [ref_label i] else [])) st1"
proof -
  let ?m = "match_col c"
  let ?ref = "setcol (ref_df c) ?m (clean_column (col_values (ref_df c) ?m))"
  let ?df = "df_result st"
  let ?df1 = "setcol ?df soa_col (clean_column (col_values ?df soa_col))"
  have rect: "list_all (\<lambda>r. length r = length (cols ?df)) (rows ?df)"
    and soa: "soa_col \<in> set (cols ?df)"
    and old: "list_all (old_label i) (cols ?df)"
    and keys: "clean_column (col_values ?df soa_col) = map Str ks"
    and dict: "match_sources_dict st = (\<lambda>k. if k \<in> set ks then Some (L k) else None)"
    using inv by (simp_all add: matched_so_far_def)
  have rrect: "list_all (\<lambda>r. length r = length (cols (ref_df c))) (rows (ref_df c))"
    and pm: "\<not> startswith ?m ''Ref''"
    and dref: "distinct (clean_column (col_values (ref_df c) ?m))"
    using good by (simp_all add: joinable_def)
  have min: "?m \<in> set (cols (ref_df c))"
    using slot_body_ok(1) [OF ok] .
  obtain evs' where rest: "slot_rest soa_col tsteps i c ?ref st = ((st1, evs'), None)"
    using slot_body_ok(2) [OF ok] by blast
  obtain merged where j: "join_slot soa_col i c ?ref ?df1 = Inr merged"
    and mm: "mark_matches soa_col tsteps i c (st\<lparr>df_result := merged\<rparr>) = ((st1, evs'), None)"
    using slot_rest_ok [OF rest] by blast
  obtain first others mcol st2 evs2 where rcs: "return_cols c = first # others"
    and gm: "getcol merged (ref_col_name i first) = Inr mcol"
    and mr: "match_rows (ref_label i) soa_col tsteps (cols merged)
                (zip (map notna mcol) (rows merged)) (st\<lparr>df_result := merged\<rparr>) = ((st2, evs2), None)"
    and sep: "st1 = st2 \<or> (\<exists>df. insert_last (''Separator'' @ show_nat (i + 1)) (df_result st2) = Inr df
                               \<and> st1 = st2\<lparr>df_result := df\<rparr>)"
    using mark_matches_ok [OF mm] by auto
  have lk: "length (clean_column (col_values ?df soa_col)) = length (rows ?df)"
    by (simp add: length_clean_column col_values_def)
  have cols1: "cols ?df1 = cols ?df"
    using soa by (rule cols_setcol_in)
  have rect1: "list_all (\<lambda>r. length r = length (cols ?df1)) (rows ?df1)"
    using rect soa by (rule rect_setcol)
  have vals1: "col_values ?df1 soa_col = map Str ks"
    using col_values_setcol [OF soa lk rect] keys by simp
  have old1: "list_all (old_label i) (cols ?df1)"
    using old cols1 by simp
  have lr: "length (clean_column (col_values (ref_df c) ?m)) = length (rows (ref_df c))"
    by (simp add: length_clean_column col_values_def)
  have valsr: "col_values ?ref ?m = clean_column (col_values (ref_df c) ?m)"
    using col_values_setcol [OF min lr rrect] .
  have dk: "distinct (col_values ?ref ?m)"
    using dref valsr by simp
  note frame = join_slot_frame [OF j pm old1 dk rect1 rcs]
  let ?mi = "col_index (cols ?ref) ?m" and ?fi = "col_index (cols ?ref) first"
  let ?si = "col_index (cols merged) soa_col"
  define G where "G key = (case find (\<lambda>r. r ! ?mi = key) (rows ?ref) of
                             None \<Rightarrow> NaN | Some r \<Rightarrow> r ! ?fi)" for key
  have "mcol = map (\<lambda>l. G (l ! col_index (cols ?df1) soa_col)) (rows ?df1)"
    using frame(5) gm by (simp add: G_def)
  also have "\<dots> = map G (col_values ?df1 soa_col)"
    by (simp add: col_values_def)
  finally have mcol: "map notna mcol = map (\<lambda>k'. notna (G (Str k'))) ks"
    using vals1 by simp
  have cv: "map (\<lambda>row. row ! ?si) (rows merged) = map Str ks"
    using frame(4) vals1 by (simp add: col_values_def)
  have hits: "length (filter (\<lambda>(m, row). m \<and> clean_match_value (py_str (row ! ?si)) = k)
                        (zip (map notna mcol) (rows merged)))
                = (if k \<in> set ks \<and> notna (G (Str k)) then 1 else 0)" for k
    unfolding mcol using dks fixed cv by (rule hits_unique)
  have dmap: "distinct (map (\<lambda>r. r ! ?mi) (rows ?ref))"
    using dk by (simp add: col_values_def)
  have sm: "notna (G (Str k)) = spec_slot_matches c k" for k
    unfolding G_def notna_find spec_slot_matches_def Let_def
    using list_ex_unique [OF dmap, of "Str k" "\<lambda>r. notna (r ! ?fi)"] rcs by simp
  have st2: "st2 = st\<lparr>df_result := merged,
                     match_sources_dict := (\<lambda>k. map_option
                        (\<lambda>l. l @ replicate (if k \<in> set ks \<and> spec_slot_matches c k then 1 else 0) (ref_label i))
                        (match_sources_dict st k)),
                     current_step := current_step st + length (zip (map notna mcol) (rows merged))\<rparr>"
    using mr unfolding match_rows_closed [OF frame(2) t] hits sm by simp
  have d2: "match_sources_dict st2
              = (\<lambda>k. if k \<in> set ks
                     then Some (L k @ (if spec_slot_matches c k then [ref_label i] else []))
                     else None)"
    unfolding st2 dict by (auto simp: fun_eq_iff)
  have df2: "df_result st2 = merged"
    unfolding st2 by simp
  have k2: "clean_column (col_values merged soa_col) = map Str ks"
    using frame(4) vals1 clean_column_keys [OF fixed] by simp
  have inv2: "matched_so_far soa_col ks (Suc i)
           (\<lambda>k. L k @ (if spec_slot_matches c k then [ref_label i] else [])) st2"
    unfolding matched_so_far_def df2 using frame(1,2,3) k2 d2 by simp
  from sep show ?thesis
  proof
    assume "st1 = st2"
    then show ?thesis using inv2 by simp
  next
    assume "\<exists>df. insert_last (''Separator'' @ show_nat (i + 1)) (df_result st2) = Inr df
                               \<and> st1 = st2\<lparr>df_result := df\<rparr>"
    then obtain df where il: "insert_last (''Separator'' @ show_nat (i + 1)) merged = Inr df"
      and s1: "st1 = st2\<lparr>df_result := df\<rparr>"
      using df2 by auto
    note fr = insert_last_frame [OF il frame(1) frame(2)]
    have o: "list_all (old_label (Suc i)) (cols df)"
      using frame(3) fr(2) old_label_plain [OF plain_separator, of "Suc i" "show_nat (i + 1)"]
      by simp
    have "soa_col \<in> set (cols df)"
      using frame(2) fr(2) by simp
    moreover have "clean_column (col_values df soa_col) = map Str ks"
      using fr(3) k2 by simp
    ultimately show ?thesis
      unfolding matched_so_far_def s1 using fr(1) o d2 by simp
  qed
qed

section \<open>The join of a slot, row by row\<close>

lemma extension_nonempty: "extension soa_col c ref key \<noteq> []"
  by (simp add: extension_def Let_def)

lemma extension_length:
  "e \<in> set (extension soa_col c ref key) \<Longrightarrow>
   length e = length (if soa_col = match_col c then [] else [match_col c]) + length (return_cols c)"
  by (auto simp: extension_def Let_def split: if_splits)

lemma join_slot_rows:
  assumes j: "join_slot soa_col idx c ref df = Inr merged"
    and pm: "\<not> startswith (match_col c) ''Ref''"
    and ps: "\<not> startswith soa_col ''Ref''"
  shows "\<exists>tr. soa_col \<notin> set tr
           \<and> set tr \<subseteq> insert (match_col c) (set (map (ref_col_name idx) (return_cols c)))
           \<and> \<not> suffix_dups (cols df) (suffixed tr (cols df) ''_x'')
           \<and> cols merged = suffixed tr (cols df) ''_x''
                 @ suffixed tr ((if soa_col = match_col c then [] else [match_col c])
                                  @ map (ref_col_name idx) (return_cols c)) ''_y''
           \<and> rows merged =
               concat (map (\<lambda>l. map (\<lambda>e. l @ e)
                                   (extension soa_col c ref (l ! col_index (cols df) soa_col)))
                         (rows df))"
    and "soa_col \<in> set (cols df)"
    and "set (return_cols c) \<subseteq> set (cols ref)"
proof -
  let ?m = "match_col c" and ?rcs = "return_cols c"
  let ?mi = "col_index (cols ref) ?m" and ?si = "col_index (cols df) soa_col"
  let ?names = "map (ref_col_name idx) ?rcs"
  let ?cells = "\<lambda>r. map (\<lambda>c. r ! col_index (cols ref) c) ?rcs"
  let ?pre = "if soa_col = ?m then [] else [?m]"
  let ?prer = "\<lambda>r. if soa_col = ?m then [] else [r ! ?mi]"
  let ?E = "\<lparr>cols = ?m # ?names, rows = map (\<lambda>r. r ! ?mi # ?cells r) (rows ref)\<rparr>"
  let ?R = "\<lparr>cols = ?pre @ ?names, rows = map (\<lambda>r. ?prer r @ ?cells r) (rows ref)\<rparr>"
  from j obtain selected where sel: "select_cols ref (?m # ?rcs) = Inr selected"
    and m: "merge_left df (selected\<lparr>cols := ?m # ?names\<rparr>) soa_col ?m = Inr merged"
    by (auto simp: join_slot_def Let_def split: sum.splits)
  have E: "selected\<lparr>cols := ?m # ?names\<rparr> = ?E"
    using select_cols_Inr(1) [OF sel] by simp
  show sub: "set ?rcs \<subseteq> set (cols ref)"
    using select_cols_Inr(2) [OF sel] by simp
  have R: "(if soa_col = ?m then drop_col ?m ?E else ?E) = ?R"
    using dropped_key [OF pm, of idx ?rcs ?mi "cols ref" "rows ref"] by simp
  let ?tr = "filter (\<lambda>c. c \<in> set (cols ?R)) (cols df)"
  have sn: "soa_col \<notin> set ?names"
    using ps by (rule ref_names_not_plain)
  have tr: "soa_col \<notin> set ?tr" "set ?tr \<subseteq> insert ?m (set ?names)"
    using sn by auto
  have ri: "col_index (cols ?E) ?m = 0" by (simp add: col_index_Cons)
  show soa: "soa_col \<in> set (cols df)"
    using m by (auto simp: merge_left_def Let_def split: if_splits)
  have nd: "\<not> suffix_dups (cols df) (suffixed ?tr (cols df) ''_x'')"
    using m unfolding merge_left_def E Let_def R by (auto split: if_splits)
  have merged: "merged = \<lparr>cols = suffixed ?tr (cols df) ''_x'' @ suffixed ?tr (cols ?R) ''_y'',
       rows = concat (map (\<lambda>l.
                 let ms = filter (\<lambda>(r, r'). r ! 0 = l ! ?si) (zip (rows ?E) (rows ?R))
                 in if ms = [] then [l @ replicate (length (suffixed ?tr (cols ?R) ''_y'')) NaN]
                    else map (\<lambda>(r, r'). l @ r') ms) (rows df))\<rparr>"
    using m unfolding merge_left_def E Let_def R ri by (auto split: if_splits)
  have cols: "cols merged = suffixed ?tr (cols df) ''_x'' @ suffixed ?tr (?pre @ ?names) ''_y''"
    by (simp add: merged)
  have z: "zip (rows ?E) (rows ?R) = map (\<lambda>r. (r ! ?mi # ?cells r, ?prer r @ ?cells r)) (rows ref)"
    by (simp add: zip_map_map zip_same_conv_map)
  have f: "filter (\<lambda>(r, r'). r ! 0 = k) (zip (rows ?E) (rows ?R))
            = map (\<lambda>r. (r ! ?mi # ?cells r, ?prer r @ ?cells r)) (filter (\<lambda>r. r ! ?mi = k) (rows ref))" for k
    unfolding z by (simp add: filter_map comp_def)
  have len: "length (suffixed ?tr (cols ?R) ''_y'') = length ?pre + length ?rcs"
    by (simp add: length_suffixed)
  have g: "(let ms = filter (\<lambda>(r, r'). r ! 0 = l ! ?si) (zip (rows ?E) (rows ?R))
                 in if ms = [] then [l @ replicate (length (suffixed ?tr (cols ?R) ''_y'')) NaN]
                    else map (\<lambda>(r, r'). l @ r') ms)
           = map (\<lambda>e. l @ e) (extension soa_col c ref (l ! ?si))" for l
    unfolding f len Let_def extension_def
    by (cases "filter (\<lambda>r. r ! ?mi = l ! ?si) (rows ref) = []") (simp_all add: comp_def)
  have "rows merged = concat (map (\<lambda>l.
                 let ms = filter (\<lambda>(r, r'). r ! 0 = l ! ?si) (zip (rows ?E) (rows ?R))
                 in if ms = [] then [l @ replicate (length (suffixed ?tr (cols ?R) ''_y'')) NaN]
                    else map (\<lambda>(r, r'). l @ r') ms) (rows df))"
    by (simp only: merged table.select_convs)
  then have rows: "rows merged =
      concat (map (\<lambda>l. map (\<lambda>e. l @ e) (extension soa_col c ref (l ! ?si))) (rows df))"
    by (simp only: g)
  show "\<exists>tr. soa_col \<notin> set tr
           \<and> set tr \<subseteq> insert (match_col c) (set (map (ref_col_name idx) (return_cols c)))
           \<and> \<not> suffix_dups (cols df) (suffixed tr (cols df) ''_x'')
           \<and> cols merged = suffixed tr (cols df) ''_x''
                 @ suffixed tr ((if soa_col = match_col c then [] else [match_col c])
                                  @ map (ref_col_name idx) (return_cols c)) ''_y''
           \<and> rows merged =
               concat (map (\<lambda>l. map (\<lambda>e. l @ e)
                                   (extension soa_col c ref (l ! col_index (cols df) soa_col)))
                         (rows df))"
    using tr nd cols rows by (intro exI [of _ ?tr]) (simp only: simp_thms)
qed

end
